theory Spec2Isabelle
  imports Main "HOL-Library.Sublist"
begin

section \<open>JavaScript strings\<close>

text \<open>
  Strings are lists of characters. Case mapping and white space are the ASCII ones:
  \<^verbatim>\<open>toLowerCase\<close> maps \<open>A\<close>..\<open>Z\<close> to \<open>a\<close>..\<open>z\<close> and leaves every other
  character alone, and \<^verbatim>\<open>\s\<close> / \<^verbatim>\<open>trim\<close> see space, tab, line feed, vertical
  tab, form feed and carriage return.
\<close>

definition isDigit :: "char \<Rightarrow> bool" where
  "isDigit c \<longleftrightarrow> c \<in> set ''0123456789''"

definition isSpace :: "char \<Rightarrow> bool" where
  "isSpace c \<longleftrightarrow> c \<in> set [CHR '' '', CHR 0x09, CHR 0x0A, CHR 0x0B, CHR 0x0C, CHR 0x0D]"

definition lowerChar :: "char \<Rightarrow> char" where
  "lowerChar c =
     (case map_of (zip ''ABCDEFGHIJKLMNOPQRSTUVWXYZ'' ''abcdefghijklmnopqrstuvwxyz'') c of
        None \<Rightarrow> c
      | Some l \<Rightarrow> l)"

definition toLowerCase :: "string \<Rightarrow> string" where
  "toLowerCase s = map lowerChar s"

text \<open>\<^verbatim>\<open>s.trim()\<close>\<close>

definition trim :: "string \<Rightarrow> string" where
  "trim s = rev (dropWhile isSpace (rev (dropWhile isSpace s)))"

text \<open>\<^verbatim>\<open>s.split(c)\<close> for a one-character separator: never the empty array.\<close>

fun split_char :: "char \<Rightarrow> string \<Rightarrow> string list" where
  "split_char sep [] = [[]]"
| "split_char sep (c # cs) =
     (if c = sep then [] # split_char sep cs
      else (case split_char sep cs of
              x # xs \<Rightarrow> (c # x) # xs
            | [] \<Rightarrow> [[c]]))"

text \<open>\<^verbatim>\<open>xs.join(sep)\<close>\<close>

fun join_with :: "string \<Rightarrow> string list \<Rightarrow> string" where
  "join_with sep [] = []"
| "join_with sep [x] = x"
| "join_with sep (x # y # ys) = x @ sep @ join_with sep (y # ys)"

text \<open>
  \<^verbatim>\<open>s.split(sep)[0]\<close> for a string separator. With the empty separator the string is
  split into its characters, so the first element is the first character, and it is
  \<^verbatim>\<open>undefined\<close> (here \<open>None\<close>) for the empty string. Otherwise it is the part of
  \<open>s\<close> before the first occurrence of \<open>sep\<close>.
\<close>

fun before_first :: "string \<Rightarrow> string \<Rightarrow> string" where
  "before_first sep [] = []"
| "before_first sep (c # cs) = (if prefix sep (c # cs) then [] else c # before_first sep cs)"

definition split_first :: "string \<Rightarrow> string \<Rightarrow> string option" where
  "split_first s sep =
     (if sep = [] then (case s of [] \<Rightarrow> None | c # _ \<Rightarrow> Some [c])
      else Some (before_first sep s))"

text \<open>\<^verbatim>\<open>s.endsWith(t)\<close>\<close>

definition endsWith :: "string \<Rightarrow> string \<Rightarrow> bool" where
  "endsWith s t \<longleftrightarrow> length t \<le> length s \<and> drop (length s - length t) s = t"

section \<open>JavaScript numbers and their decimal text\<close>

definition digitChar :: "nat \<Rightarrow> char" where
  "digitChar d = ''0123456789'' ! d"

fun index_of :: "'a \<Rightarrow> 'a list \<Rightarrow> nat" where
  "index_of x [] = 0"
| "index_of x (y # ys) = (if x = y then 0 else Suc (index_of x ys))"

definition digitVal :: "char \<Rightarrow> nat" where
  "digitVal c = index_of c ''0123456789''"

text \<open>The decimal digits of a non-negative integer, no leading zero.\<close>

function decimal :: "int \<Rightarrow> string" where
  "decimal n =
     (if n < 10 then [digitChar (nat n)]
      else decimal (n div 10) @ [digitChar (nat (n mod 10))])"
  by pat_completeness auto
termination by (relation "measure nat") auto

declare decimal.simps [simp del]

text \<open>The integer a string of decimal digits denotes.\<close>

definition parseDigits :: "string \<Rightarrow> int" where
  "parseDigits s = foldl (\<lambda>a c. 10 * a + int (digitVal c)) 0 s"

text \<open>
  A JavaScript number is an IEEE 754 double. The numbers of the engine are suffix
  indices: they are integers, or the infinity \<^verbatim>\<open>parseInt\<close> returns for a digit
  string beyond the range of the doubles. \<open>Num n\<close> is the double whose value is the
  integer \<open>n\<close>. Every integer below \<open>2^53 = 9007199254740992\<close> in absolute value is a
  double; from there on only the integers with 53 significant bits are. \<open>toDouble\<close>
  rounds an integer to the nearest double, to the one with the even significand when two
  are equally near, and to an infinity when the rounded value reaches \<open>2^1024\<close>.
  The engine gets its numbers from \<^verbatim>\<open>parseInt\<close> and from \<^verbatim>\<open>+ 1\<close>, which both
  round, so every \<open>Num n\<close> it holds is a double.
\<close>

datatype jsnum = Num int | PosInfinity | NegInfinity

function bitLength :: "int \<Rightarrow> nat" where
  "bitLength n = (if n \<le> 0 then 0 else Suc (bitLength (n div 2)))"
  by pat_completeness auto
termination by (relation "measure nat") auto

declare bitLength.simps [simp del]

definition toDouble :: "int \<Rightarrow> jsnum" where
  "toDouble m =
     (let a = \<bar>m\<bar> in
      if a < 9007199254740992 then Num m
      else
        let e = bitLength a - 53;
            q = a div 2 ^ e;
            r = a mod 2 ^ e;
            half = 2 ^ (e - 1);
            q' = (if half < r \<or> (r = half \<and> odd q) then q + 1 else q);
            v = q' * 2 ^ e
        in if 2 ^ 1024 \<le> v then (if m < 0 then NegInfinity else PosInfinity)
           else Num (if m < 0 then - v else v))"

text \<open>\<^verbatim>\<open>x + 1\<close>, \<^verbatim>\<open>x < 0\<close> and \<^verbatim>\<open>Math.max(x, y)\<close>\<close>

definition jsAdd1 :: "jsnum \<Rightarrow> jsnum" where
  "jsAdd1 x =
     (case x of
        Num n \<Rightarrow> toDouble (n + 1)
      | PosInfinity \<Rightarrow> PosInfinity
      | NegInfinity \<Rightarrow> NegInfinity)"

definition jsNegative :: "jsnum \<Rightarrow> bool" where
  "jsNegative x = (case x of Num n \<Rightarrow> n < 0 | PosInfinity \<Rightarrow> False | NegInfinity \<Rightarrow> True)"

definition jsLess :: "jsnum \<Rightarrow> jsnum \<Rightarrow> bool" where
  "jsLess x y =
     (case (x, y) of
        (Num a, Num b) \<Rightarrow> a < b
      | (Num a, PosInfinity) \<Rightarrow> True
      | (NegInfinity, Num b) \<Rightarrow> True
      | (NegInfinity, PosInfinity) \<Rightarrow> True
      | _ \<Rightarrow> False)"

definition jsMax :: "jsnum \<Rightarrow> jsnum \<Rightarrow> jsnum" where
  "jsMax x y = (if jsLess x y then y else x)"

text \<open>
  \<^verbatim>\<open>parseInt(s, 10)\<close> on a string of decimal digits: the double nearest to the integer
  the digits denote. It is never \<^verbatim>\<open>NaN\<close>.
\<close>

definition parseInt10 :: "string \<Rightarrow> jsnum" where
  "parseInt10 s = toDouble (parseDigits s)"

text \<open>
  \<^verbatim>\<open>String(x)\<close>. An integer below \<open>2^53\<close> is printed digit by digit. A larger double
  is printed with the fewest significant digits that still denote it and no other
  double, followed by zeros: \<open>shortestDecimal a\<close> is that integer, the nearest to
  \<open>a\<close> when several have the fewest digits (of two equally near the one whose last
  significant digit is even). A text of more than 21 digits is written in exponent form.
\<close>

definition shortestDecimal :: "int \<Rightarrow> int" where
  "shortestDecimal a =
     (let D = length (decimal a);
          pick = (\<lambda>k.
            let u = 10 ^ (D - k);
                c1 = (a div u) * u;
                c2 = c1 + u;
                ok1 = (toDouble c1 = Num a);
                ok2 = (toDouble c2 = Num a)
            in if ok1 \<and> ok2 then
                 [if a - c1 < c2 - a then c1
                  else if c2 - a < a - c1 then c2
                  else if even (c1 div u) then c1 else c2]
               else if ok1 then [c1] else if ok2 then [c2] else [])
      in case concat (map pick [1..<18]) of [] \<Rightarrow> a | c # _ \<Rightarrow> c)"

definition stripZeros :: "string \<Rightarrow> string" where
  "stripZeros s = rev (dropWhile (\<lambda>c. c = CHR ''0'') (rev s))"

definition posToString :: "int \<Rightarrow> string" where
  "posToString a =
     (if a < 9007199254740992 then decimal a
      else
        let ds = decimal (shortestDecimal a); n = length ds in
        if n \<le> 21 then ds
        else (case stripZeros ds of
                [] \<Rightarrow> ds
              | d # rest \<Rightarrow>
                  d # (if rest = [] then [] else CHR ''.'' # rest) @ ''e+'' @
                  decimal (int n - 1)))"

definition jsToString :: "jsnum \<Rightarrow> string" where
  "jsToString x =
     (case x of
        Num n \<Rightarrow> (if n < 0 then CHR ''-'' # posToString (- n) else posToString n)
      | PosInfinity \<Rightarrow> ''Infinity''
      | NegInfinity \<Rightarrow> ''-Infinity'')"

section \<open>Regular expressions of the engine\<close>

text \<open>
  \<^verbatim>\<open>s.match(re)\<close> for a regular expression without the \<^verbatim>\<open>g\<close> flag returns
  \<^verbatim>\<open>null\<close> or an array holding the text of the leftmost match followed by one entry
  per capture group, with the position of the match as its \<^verbatim>\<open>index\<close>. The array is
  \<open>groups\<close> here, so that \<^verbatim>\<open>match.length\<close> is \<open>length (groups m)\<close> and
  \<^verbatim>\<open>match[0]\<close> is its head.
\<close>

record regexMatch =
  index :: nat
  groups :: "string list"

text \<open>The leftmost position where an anchored matcher succeeds.\<close>

fun regex_search :: "(string \<Rightarrow> string option) \<Rightarrow> string \<Rightarrow> nat \<Rightarrow> (nat \<times> string) option" where
  "regex_search m [] i = (case m [] of Some x \<Rightarrow> Some (i, x) | None \<Rightarrow> None)"
| "regex_search m (c # cs) i =
     (case m (c # cs) of Some x \<Rightarrow> Some (i, x) | None \<Rightarrow> regex_search m cs (Suc i))"

text \<open>A regular expression with no capture group: the array has the one entry.\<close>

definition js_match :: "(string \<Rightarrow> string option) \<Rightarrow> string \<Rightarrow> regexMatch option" where
  "js_match m s =
     (case regex_search m s 0 of
        None \<Rightarrow> None
      | Some (i, x) \<Rightarrow> Some \<lparr>index = i, groups = [x]\<rparr>)"

text \<open>\<^verbatim>\<open>/\d{8}_\d{6,}/\<close> at the head of a string: the matched text (greedy).\<close>

definition date_pattern :: "string \<Rightarrow> string option" where
  "date_pattern s =
     (let d = take 8 s; r = drop 8 s in
      if length d = 8 \<and> list_all isDigit d then
        (case r of
           [] \<Rightarrow> None
         | c # t \<Rightarrow>
             if c = CHR ''_'' \<and> 6 \<le> length (takeWhile isDigit t)
             then Some (d @ [c] @ takeWhile isDigit t) else None)
      else None)"

text \<open>\<^verbatim>\<open>/15\d{11}/\<close> at the head of a string.\<close>

definition epoch_pattern :: "string \<Rightarrow> string option" where
  "epoch_pattern s =
     (let m = take 13 s in
      if length m = 13 \<and> take 2 m = ''15'' \<and> list_all isDigit (drop 2 m) then Some m else None)"

text \<open>\<^verbatim>\<open>s.substring(0, n)\<close>\<close>

definition substring0 :: "string \<Rightarrow> nat \<Rightarrow> string" where
  "substring0 s n = take n s"

section \<open>Node's \<^verbatim>\<open>path\<close> module (POSIX)\<close>

text \<open>
  \<^verbatim>\<open>path.parse\<close> and \<^verbatim>\<open>path.join\<close> belong to Node, not to the repository. They
  are modelled as Node's POSIX implementation behaves: \<^verbatim>\<open>parse\<close> drops trailing
  separators, takes the text after the last remaining separator as \<open>base\<close> and what is
  before that separator as \<open>dir\<close>; \<open>ext\<close> starts at the last dot of \<open>base\<close>, unless
  that dot is the first character of \<open>base\<close> or \<open>base\<close> is \<^verbatim>\<open>..\<close>.
\<close>

record ParsedPath =
  root :: string
  dir :: string
  base :: string
  ext :: string
  name :: string

definition stripTrailingSlashes :: "string \<Rightarrow> string" where
  "stripTrailingSlashes s = rev (dropWhile (\<lambda>c. c = CHR ''/'') (rev s))"

definition lastComponent :: "string \<Rightarrow> string" where
  "lastComponent s = rev (takeWhile (\<lambda>c. c \<noteq> CHR ''/'') (rev s))"

text \<open>
  The name and the extension of a last component. \<open>dotdot\<close> is false for an absolute
  path with no separator after the first: there Node compares the position of the dot
  with the wrong start and so gives \<^verbatim>\<open>/..\<close> the extension \<^verbatim>\<open>.\<close>.
\<close>

definition splitExt :: "bool \<Rightarrow> string \<Rightarrow> string \<times> string" where
  "splitExt dotdot part =
     (let post = rev (takeWhile (\<lambda>c. c \<noteq> CHR ''.'') (rev part)) in
      if length post = length part then (part, [])
      else
        let pre = take (length part - length post - 1) part in
        if pre = [] then (part, [])
        else if dotdot \<and> pre = ''.'' \<and> post = [] then (part, [])
        else (pre, CHR ''.'' # post))"

definition path_parse :: "string \<Rightarrow> ParsedPath" where
  "path_parse path =
     (if path = [] then \<lparr>root = [], dir = [], base = [], ext = [], name = []\<rparr>
      else
        let isAbsolute = (hd path = CHR ''/'');
            start = (if isAbsolute then 1 else 0);
            body = stripTrailingSlashes (drop start path);
            part = lastComponent body;
            found = (length part < length body);
            startPart = start + (length body - length part);
            (nm, ex) = splitExt (found \<or> \<not> isAbsolute) part
        in \<lparr>root = (if isAbsolute then ''/'' else []),
            dir = (if found then take (startPart - 1) path
                   else if isAbsolute then ''/'' else []),
            base = part, ext = ex, name = nm\<rparr>)"

text \<open>
  \<^verbatim>\<open>normalizeString\<close>, one path segment at a time: empty segments and \<^verbatim>\<open>.\<close> are
  dropped, \<^verbatim>\<open>..\<close> removes the segment before it (or stays, in a relative path that
  has nothing left to remove).
\<close>

definition normalizeStep :: "bool \<Rightarrow> string list \<Rightarrow> string \<Rightarrow> string list" where
  "normalizeStep allowAboveRoot res seg =
     (if seg = [] \<or> seg = ''.'' then res
      else if seg = ''..'' then
        (if res \<noteq> [] \<and> last res \<noteq> ''..'' then butlast res
         else if allowAboveRoot then res @ [''..''] else res)
      else res @ [seg])"

definition normalizeSegments :: "bool \<Rightarrow> string \<Rightarrow> string list" where
  "normalizeSegments allowAboveRoot path =
     foldl (normalizeStep allowAboveRoot) [] (split_char CHR ''/'' path)"

definition path_normalize :: "string \<Rightarrow> string" where
  "path_normalize path =
     (if path = [] then ''.''
      else
        let isAbsolute = (hd path = CHR ''/'');
            trailingSeparator = (last path = CHR ''/'');
            p = join_with ''/'' (normalizeSegments (\<not> isAbsolute) path)
        in if p = [] then (if isAbsolute then ''/'' else if trailingSeparator then ''./'' else ''.'')
           else
             let p' = (if trailingSeparator then p @ ''/'' else p)
             in if isAbsolute then CHR ''/'' # p' else p')"

text \<open>\<^verbatim>\<open>path.join(a, b)\<close>\<close>

definition path_join :: "string \<Rightarrow> string \<Rightarrow> string" where
  "path_join a b =
     (let args = filter (\<lambda>x. x \<noteq> []) [a, b] in
      if args = [] then ''.'' else path_normalize (join_with ''/'' args))"

section \<open>The host: subprocess, file system, dates\<close>

text \<open>
  What the engine takes from outside is a parameter of the model: the output of the
  \<^verbatim>\<open>exiftool\<close> subprocess for a command line (or the exception \<^verbatim>\<open>execSync\<close>
  throws), the listing of a directory (or the exception \<^verbatim>\<open>readdirSync\<close> throws),
  date-fns' \<^verbatim>\<open>parse(text, pattern, new Date(), {})\<close>, and the calendar fields of a
  time value in the local time zone (\<^verbatim>\<open>getFullYear\<close>, \<^verbatim>\<open>getMonth\<close>, ...).
  A JavaScript \<^verbatim>\<open>Date\<close> is its time value in milliseconds, or the invalid date.
\<close>

datatype error = ExecError | TypeError | RangeError | FsError

datatype jsdate = InvalidDate | Date int

record dateFields =
  fullYear :: int
  month :: nat
  dayOfMonth :: nat
  hours :: nat
  minutes :: nat
  seconds :: nat

record host =
  execSync :: "string \<Rightarrow> error + string"
  readdirSync :: "string \<Rightarrow> error + string list"
  dateParse :: "string \<Rightarrow> string \<Rightarrow> jsdate"
  localFields :: "int \<Rightarrow> dateFields"

text \<open>\<^verbatim>\<open>new Date(n)\<close> for an integer \<open>n\<close>.\<close>

definition newDate :: "int \<Rightarrow> jsdate" where
  "newDate n = (if \<bar>n\<bar> \<le> 8640000000000000 then Date n else InvalidDate)"

text \<open>date-fns' \<^verbatim>\<open>addLeadingZeros\<close> on a natural number.\<close>

definition addLeadingZeros :: "nat \<Rightarrow> nat \<Rightarrow> string" where
  "addLeadingZeros n targetLength =
     replicate (targetLength - length (decimal (int n))) CHR ''0'' @ decimal (int n)"

text \<open>
  \<^verbatim>\<open>format(date, "yyyyMMdd_HHmmss", {})\<close>: a \<^verbatim>\<open>RangeError\<close> for the invalid date,
  otherwise the zero-padded local calendar fields (a year \<open>y \<le> 0\<close> is printed as
  \<open>1 - y\<close>).
\<close>

definition format :: "host \<Rightarrow> jsdate \<Rightarrow> error + string" where
  "format h d =
     (case d of
        InvalidDate \<Rightarrow> Inl RangeError
      | Date t \<Rightarrow>
          let f = localFields h t;
              y = (if fullYear f > 0 then fullYear f else 1 - fullYear f)
          in Inr (addLeadingZeros (nat y) 4 @ addLeadingZeros (month f + 1) 2 @
                  addLeadingZeros (dayOfMonth f) 2 @ ''_'' @ addLeadingZeros (hours f) 2 @
                  addLeadingZeros (minutes f) 2 @ addLeadingZeros (seconds f) 2))"

section \<open>File classifier\<close>

text \<open>
  \<^verbatim>\<open>file.ext.toLowerCase().match(/\.(jpg|jpeg|png|gif|bmp|heic)$/) != null\<close>: the
  lower-cased extension ends with a dot and one of the alternatives.
\<close>

definition isImage :: "ParsedPath \<Rightarrow> bool" where
  "isImage file \<longleftrightarrow>
     list_ex (\<lambda>a. endsWith (toLowerCase (ext file)) (CHR ''.'' # a))
       [''jpg'', ''jpeg'', ''png'', ''gif'', ''bmp'', ''heic'']"

definition isVideo :: "ParsedPath \<Rightarrow> bool" where
  "isVideo file \<longleftrightarrow>
     list_ex (\<lambda>a. endsWith (toLowerCase (ext file)) (CHR ''.'' # a)) [''mp4'', ''mov'']"

section \<open>Metadata reader\<close>

type_synonym ExifMap = "string \<rightharpoonup> string"

text \<open>One line of the tool's output, stored into the map.\<close>

definition exifLine :: "ExifMap \<Rightarrow> string \<Rightarrow> ExifMap" where
  "exifLine exifMap line =
     (case split_char CHR '':'' line of
        [] \<Rightarrow> exifMap
      | rawKey # rawValues \<Rightarrow>
          let key = filter (\<lambda>c. \<not> isSpace c) (trim rawKey);
              v = trim (join_with '':'' rawValues)
          in exifMap(key \<mapsto> v))"

definition getExif :: "host \<Rightarrow> string \<Rightarrow> error + ExifMap" where
  "getExif h filePath =
     (case execSync h (''exiftool '' @ [CHR 0x22] @ filePath @ [CHR 0x22]) of
        Inl e \<Rightarrow> Inl e
      | Inr outStr \<Rightarrow> Inr (foldl exifLine Map.empty (split_char CHR 0x0A outStr)))"

section \<open>Timestamp resolver\<close>

definition getDateFromExif :: "host \<Rightarrow> ParsedPath \<Rightarrow> ExifMap \<Rightarrow> jsdate option" where
  "getDateFromExif h file exifMap =
     (case exifMap ''CreateDate'' of
        None \<Rightarrow> None
      | Some v \<Rightarrow>
          (case split_char CHR ''.'' v of
             [] \<Rightarrow> None
           | dateString # _ \<Rightarrow> Some (dateParse h dateString ''yyyy:MM:dd HH:mm:ss'')))"

text \<open>
  \<^verbatim>\<open>file.base.split(file.ext)[0]\<close> followed by \<^verbatim>\<open>.match\<close>: a \<^verbatim>\<open>TypeError\<close> when
  the first element is \<^verbatim>\<open>undefined\<close>.
\<close>

definition isCorrectFileName :: "ParsedPath \<Rightarrow> error + bool" where
  "isCorrectFileName file =
     (case split_first (base file) (ext file) of
        None \<Rightarrow> Inl TypeError
      | Some b \<Rightarrow>
          (case js_match date_pattern b of
             None \<Rightarrow> Inr False
           | Some m \<Rightarrow> Inr (length (groups m) = 1 \<and> index m = 0)))"

definition getDateFromFileName :: "host \<Rightarrow> ParsedPath \<Rightarrow> error + jsdate option" where
  "getDateFromFileName h file =
     (case split_first (base file) (ext file) of
        None \<Rightarrow> Inl TypeError
      | Some b \<Rightarrow>
          (case js_match date_pattern b of
             None \<Rightarrow> Inr None
           | Some m \<Rightarrow>
               if length (groups m) > 1 then Inr None
               else (case groups m of
                       [] \<Rightarrow> Inl TypeError
                     | g # _ \<Rightarrow> Inr (Some (dateParse h (substring0 g 15) ''yyyyMMdd_HHmmss'')))))"

definition getDateFromUnixTimestamp :: "ParsedPath \<Rightarrow> error + jsdate option" where
  "getDateFromUnixTimestamp file =
     (case split_first (base file) (ext file) of
        None \<Rightarrow> Inl TypeError
      | Some b \<Rightarrow>
          (case js_match epoch_pattern b of
             None \<Rightarrow> Inr None
           | Some m \<Rightarrow>
               if length (groups m) > 1 then Inr None
               else (case groups m of
                       [] \<Rightarrow> Inl TypeError
                     | g # _ \<Rightarrow> Inr (Some (newDate (parseDigits (substring0 g 13)))))))"

definition getDate :: "host \<Rightarrow> string \<Rightarrow> error + jsdate option" where
  "getDate h filePath =
     (let file = path_parse filePath in
      case isCorrectFileName file of
        Inl e \<Rightarrow> Inl e
      | Inr True \<Rightarrow> Inr None
      | Inr False \<Rightarrow>
          (case getExif h filePath of
             Inl e \<Rightarrow> Inl e
           | Inr exifData \<Rightarrow>
               (case getDateFromExif h file exifData of
                  Some dateFromExif \<Rightarrow> Inr (Some dateFromExif)
                | None \<Rightarrow>
                    (case getDateFromFileName h file of
                       Inl e \<Rightarrow> Inl e
                     | Inr (Some dateFromFileName) \<Rightarrow> Inr (Some dateFromFileName)
                     | Inr None \<Rightarrow> getDateFromUnixTimestamp file))))"

section \<open>Directory collision index\<close>

text \<open>
  The engine object: \<^verbatim>\<open>#indexMap\<close> and \<^verbatim>\<open>#dirCache\<close>. A JavaScript \<^verbatim>\<open>Set\<close> is
  the list of its elements in insertion order. \<open>readdirCalls\<close> is not a field of the
  class: it records, in order, the directories \<^verbatim>\<open>fs.readdirSync\<close> was called with.
\<close>

record engine =
  indexMap :: "string \<rightharpoonup> jsnum"
  dirCache :: "string \<rightharpoonup> string list"
  readdirCalls :: "string list"

definition newEngine :: engine where
  "newEngine = \<lparr>indexMap = Map.empty, dirCache = Map.empty, readdirCalls = []\<rparr>"

definition setAdd :: "string list \<Rightarrow> string \<Rightarrow> string list" where
  "setAdd known x = (if x \<in> set known then known else known @ [x])"

definition newSet :: "string list \<Rightarrow> string list" where
  "newSet xs = foldl setAdd [] xs"

definition getDirCache :: "host \<Rightarrow> engine \<Rightarrow> string \<Rightarrow> string list \<times> engine" where
  "getDirCache h s d =
     (case dirCache s d of
        Some cached \<Rightarrow> (cached, s)
      | None \<Rightarrow>
          let entries = (case readdirSync h d of Inl _ \<Rightarrow> [] | Inr es \<Rightarrow> es);
              known = newSet (map toLowerCase entries)
          in (known, s\<lparr>dirCache := (dirCache s)(d \<mapsto> known),
                        readdirCalls := readdirCalls s @ [d]\<rparr>))"

definition addToDirCache :: "host \<Rightarrow> engine \<Rightarrow> string \<Rightarrow> string \<Rightarrow> engine" where
  "addToDirCache h s d nameLower =
     (let (known, s') = getDirCache h s d
      in s'\<lparr>dirCache := (dirCache s')(d \<mapsto> setAdd known nameLower)\<rparr>)"

text \<open>
  The text of an extension used as a regular expression: a dot stands for any character
  but a line terminator, every other character for itself (the extension has passed
  \<open>isImage\<close> or \<open>isVideo\<close>, so the leading dot is its only special character).
\<close>

definition ext_match :: "string \<Rightarrow> string \<Rightarrow> bool" where
  "ext_match e r \<longleftrightarrow>
     list_all2 (\<lambda>p c. if p = CHR ''.'' then c \<noteq> CHR 0x0A \<and> c \<noteq> CHR 0x0D else p = c) e r"

text \<open>
  \<^verbatim>\<open>name.match(new RegExp(`^${formattedDate}(?:_(\d+))?${extLower}$`))\<close>, where the
  formatted date is digits and underscores and so stands for itself: \<open>None\<close> for no
  match, \<open>Some None\<close> for a match whose group did not take part, \<open>Some (Some ds)\<close> for
  a match with the captured digits. The group is tried first; the extension has a fixed
  length, which fixes how many digits the group can take.
\<close>

definition suffix_regex :: "string \<Rightarrow> string \<Rightarrow> string \<Rightarrow> string option option" where
  "suffix_regex formattedDate extLower nm =
     (if \<not> prefix formattedDate nm then None
      else
        let r = drop (length formattedDate) nm;
            plain = (if ext_match extLower r then Some None else None)
        in case r of
             [] \<Rightarrow> plain
           | c # t \<Rightarrow>
               if c = CHR ''_'' then
                 (let k = length t - length extLower in
                  if 1 \<le> k \<and> k \<le> length (takeWhile isDigit t) \<and> ext_match extLower (drop k t)
                  then Some (Some (take k t)) else plain)
               else plain)"

text \<open>
  The \<^verbatim>\<open>for\<close> loop of \<^verbatim>\<open>#computeInitialIndex\<close> over the known names. The group
  holds decimal digits only, so \<^verbatim>\<open>parseInt\<close> never yields \<^verbatim>\<open>NaN\<close> and the test
  \<^verbatim>\<open>!Number.isNaN(n)\<close> always holds.
\<close>

definition maxSuffixOf :: "string \<Rightarrow> string \<Rightarrow> string list \<Rightarrow> jsnum" where
  "maxSuffixOf formattedDate extLower known =
     foldl (\<lambda>maxSuffix nm.
              case suffix_regex formattedDate extLower nm of
                None \<Rightarrow> maxSuffix
              | Some (Some ds) \<Rightarrow> jsMax maxSuffix (parseInt10 ds)
              | Some None \<Rightarrow> jsMax maxSuffix (Num (- 1)))
       (Num (- 1)) known"

definition computeInitialIndex ::
    "host \<Rightarrow> engine \<Rightarrow> string \<Rightarrow> string \<Rightarrow> string \<Rightarrow> jsnum \<times> engine" where
  "computeInitialIndex h s d formattedDate extLower =
     (let (known, s') = getDirCache h s d
      in (maxSuffixOf formattedDate extLower known, s'))"

text \<open>The candidate name of an index.\<close>

definition candidate :: "string \<Rightarrow> string \<Rightarrow> jsnum \<Rightarrow> string" where
  "candidate formattedDate extLower idx =
     (if jsNegative idx then formattedDate @ extLower
      else formattedDate @ ''_'' @ jsToString (jsAdd1 idx) @ extLower)"

text \<open>
  The retry loop of \<^verbatim>\<open>#nextAvailableIndex\<close>, \<^verbatim>\<open>while (true)\<close> with
  \<^verbatim>\<open>idx += 1\<close>: \<open>Some idx\<close> when it returns \<open>idx\<close>, \<open>None\<close> when it does not
  return.
\<close>

partial_function (option) nextAvailableIndex_loop ::
    "string list \<Rightarrow> string \<Rightarrow> string \<Rightarrow> jsnum \<Rightarrow> jsnum option" where
  "nextAvailableIndex_loop known formattedDate extLower idx =
     (if candidate formattedDate extLower idx \<notin> set known then Some idx
      else nextAvailableIndex_loop known formattedDate extLower (jsAdd1 idx))"

declare nextAvailableIndex_loop.simps [code]

definition nextAvailableIndex ::
    "host \<Rightarrow> engine \<Rightarrow> string \<Rightarrow> string \<Rightarrow> string \<Rightarrow> jsnum \<Rightarrow> jsnum option \<times> engine" where
  "nextAvailableIndex h s d formattedDate extLower startIndex =
     (let (known, s') = getDirCache h s d
      in (nextAvailableIndex_loop known formattedDate extLower startIndex, s'))"

section \<open>Rename engine\<close>

text \<open>
  The body of the second \<^verbatim>\<open>try\<close> block of \<^verbatim>\<open>replace\<close>: the new path, or the
  exception it throws, or \<open>None\<close> when the retry loop does not return; and the engine
  as the block leaves it, or as it is when the loop is entered for good.
\<close>

definition replace_rename ::
    "host \<Rightarrow> engine \<Rightarrow> ParsedPath \<Rightarrow> jsdate \<Rightarrow> (error + string) option \<times> engine" where
  "replace_rename h s file d =
     (case format h d of
        Inl e \<Rightarrow> (Some (Inl e), s)
      | Inr formattedDate \<Rightarrow>
          let extLower = toLowerCase (ext file);
              baseKey = path_join (dir file) (formattedDate @ extLower);
              s1 = (case indexMap s baseKey of
                      None \<Rightarrow>
                        (let (n, s') = computeInitialIndex h s (dir file) formattedDate extLower
                         in s'\<lparr>indexMap := (indexMap s')(baseKey \<mapsto> n)\<rparr>)
                    | Some _ \<Rightarrow> s);
              (found, s2) =
                nextAvailableIndex h s1 (dir file) formattedDate extLower
                  (case indexMap s1 baseKey of None \<Rightarrow> Num (- 1) | Some n \<Rightarrow> n)
          in case found of
               None \<Rightarrow> (None, s2)
             | Some nextIndex \<Rightarrow>
                 let indexStr = (if jsNegative nextIndex then []
                                 else ''_'' @ jsToString (jsAdd1 nextIndex));
                     newFileNameLower = formattedDate @ indexStr @ extLower;
                     newFilePath = path_join (dir file) (formattedDate @ indexStr @ ext file);
                     s3 = s2\<lparr>indexMap := (indexMap s2)(baseKey \<mapsto> nextIndex)\<rparr>;
                     s4 = addToDirCache h s3 (dir file) newFileNameLower
                 in (Some (Inr newFilePath), s4))"

text \<open>
  \<^verbatim>\<open>replace(filePath)\<close>: what it returns or throws, or \<open>None\<close> when it does not
  return, and the engine afterwards. Each \<^verbatim>\<open>catch\<close> of the source is the \<open>Inl\<close>
  branch of a case.
\<close>

definition replace :: "host \<Rightarrow> engine \<Rightarrow> string \<Rightarrow> (error + string) option \<times> engine" where
  "replace h s filePath =
     (let file = path_parse filePath;
          date = (if isImage file \<or> isVideo file
                  then (case getDate h filePath of Inl e \<Rightarrow> None | Inr d \<Rightarrow> d)
                  else None)
      in case date of
           None \<Rightarrow> (Some (Inr filePath), s)
         | Some d \<Rightarrow>
             (case replace_rename h s file d of
                (None, s') \<Rightarrow> (None, s')
              | (Some (Inl e), s') \<Rightarrow> (Some (Inr filePath), s')
              | (Some (Inr newFilePath), s') \<Rightarrow> (Some (Inr newFilePath), s')))"

text \<open>
  A run: the driver calls \<^verbatim>\<open>replace\<close> once per path, in order, on one engine. A call
  that throws ends the run with its exception, and a call that does not return is the
  end of what the run does.
\<close>

fun run :: "host \<Rightarrow> engine \<Rightarrow> string list \<Rightarrow> (error + string list) option \<times> engine" where
  "run h s [] = (Some (Inr []), s)"
| "run h s (p # ps) =
     (case replace h s p of
        (None, s') \<Rightarrow> (None, s')
      | (Some (Inl e), s') \<Rightarrow> (Some (Inl e), s')
      | (Some (Inr out), s') \<Rightarrow>
          (case run h s' ps of
             (None, s'') \<Rightarrow> (None, s'')
           | (Some (Inl e), s'') \<Rightarrow> (Some (Inl e), s'')
           | (Some (Inr outs), s'') \<Rightarrow> (Some (Inr (out # outs)), s'')))"

section \<open>A reference host\<close>

text \<open>
  A host to evaluate the engine on: the time zone is UTC and the calendar the proleptic
  Gregorian one. \<open>refParse\<close> is date-fns' \<^verbatim>\<open>parse\<close> for the two patterns of the
  engine: the invalid date unless the text matches the pattern, is followed by white
  space at most, and denotes an existing date and time of a year from 1 on.
\<close>

definition daysFromCivil :: "int \<Rightarrow> int \<Rightarrow> int \<Rightarrow> int" where
  "daysFromCivil y m d =
     (let y' = (if m \<le> 2 then y - 1 else y);
          era = y' div 400;
          yoe = y' - era * 400;
          doy = (153 * (if m > 2 then m - 3 else m + 9) + 2) div 5 + d - 1;
          doe = yoe * 365 + yoe div 4 - yoe div 100 + doy
      in era * 146097 + doe - 719468)"

definition utcFields :: "int \<Rightarrow> dateFields" where
  "utcFields t =
     (let days = t div 86400000;
          ms = t mod 86400000;
          z = days + 719468;
          era = z div 146097;
          doe = z mod 146097;
          yoe = (doe - doe div 1460 + doe div 36524 - doe div 146096) div 365;
          doy = doe - (365 * yoe + yoe div 4 - yoe div 100);
          mp = (5 * doy + 2) div 153;
          d = doy - (153 * mp + 2) div 5 + 1;
          m = (if mp < 10 then mp + 3 else mp - 9);
          y = yoe + era * 400 + (if m \<le> 2 then 1 else 0)
      in \<lparr>fullYear = y, month = nat (m - 1), dayOfMonth = nat d,
          hours = nat (ms div 3600000), minutes = nat (ms div 60000 mod 60),
          seconds = nat (ms div 1000 mod 60)\<rparr>)"

definition daysInMonth :: "int \<Rightarrow> int \<Rightarrow> int" where
  "daysInMonth y m =
     (if m = 2 then (if y mod 4 = 0 \<and> (y mod 100 \<noteq> 0 \<or> y mod 400 = 0) then 29 else 28)
      else if m \<in> {4, 6, 9, 11} then 30 else 31)"

text \<open>
  date-fns reads a pattern token by token. A numeric token of \<open>n\<close> letters takes up to
  \<open>n\<close> digits, at least one; any other character of the pattern must be the next
  character of the text.
\<close>

datatype token = Field nat | Literal char

definition takeDigits :: "nat \<Rightarrow> string \<Rightarrow> (int \<times> string) option" where
  "takeDigits n s =
     (let ds = takeWhile isDigit (take n s)
      in if ds = [] then None else Some (parseDigits ds, drop (length ds) s))"

fun parseTokens :: "token list \<Rightarrow> string \<Rightarrow> (int list \<times> string) option" where
  "parseTokens [] s = Some ([], s)"
| "parseTokens (Field n # ts) s =
     (case takeDigits n s of
        None \<Rightarrow> None
      | Some (v, rest) \<Rightarrow>
          (case parseTokens ts rest of
             None \<Rightarrow> None
           | Some (vs, r) \<Rightarrow> Some (v # vs, r)))"
| "parseTokens (Literal c # ts) s =
     (case s of
        [] \<Rightarrow> None
      | x # rest \<Rightarrow> if x = c then parseTokens ts rest else None)"

definition patternTokens :: "string \<Rightarrow> token list option" where
  "patternTokens formatString =
     (if formatString = ''yyyy:MM:dd HH:mm:ss'' then
        Some [Field 4, Literal CHR '':'', Field 2, Literal CHR '':'', Field 2, Literal CHR '' '',
              Field 2, Literal CHR '':'', Field 2, Literal CHR '':'', Field 2]
      else if formatString = ''yyyyMMdd_HHmmss'' then
        Some [Field 4, Field 2, Field 2, Literal CHR ''_'', Field 2, Field 2, Field 2]
      else None)"

definition refParse :: "string \<Rightarrow> string \<Rightarrow> jsdate" where
  "refParse dateString formatString =
     (case patternTokens formatString of
        None \<Rightarrow> InvalidDate
      | Some ts \<Rightarrow>
          (case parseTokens ts dateString of
             Some ([y, m, d, hh, mi, sec], rest) \<Rightarrow>
               if list_all isSpace rest \<and> 1 \<le> y \<and> 1 \<le> m \<and> m \<le> 12 \<and>
                  1 \<le> d \<and> d \<le> daysInMonth y m \<and> hh \<le> 23 \<and> mi \<le> 59 \<and> sec \<le> 59
               then Date (daysFromCivil y m d * 86400000 + hh * 3600000 + mi * 60000 +
                          sec * 1000)
               else InvalidDate
           | _ \<Rightarrow> InvalidDate))"

text \<open>
  The output of \<^verbatim>\<open>exiftool\<close> for a file with the given creation date, and the host
  that answers every command with it and lists the given entries in every directory.
  \<open>plainHost\<close> is a host whose tool reports no creation date.
\<close>

definition exifOutput :: "string \<Rightarrow> string" where
  "exifOutput createDate =
     ''ExifTool Version Number                 : 12.30'' @ [CHR 0x0A] @
     ''Create Date                             : '' @ createDate"

definition mediaHost :: "string \<Rightarrow> string list \<Rightarrow> host" where
  "mediaHost createDate entries =
     \<lparr>execSync = (\<lambda>_. Inr (exifOutput createDate)), readdirSync = (\<lambda>_. Inr entries),
      dateParse = refParse, localFields = utcFields\<rparr>"

definition plainHost :: host where
  "plainHost =
     \<lparr>execSync = (\<lambda>_. Inr ''ExifTool Version Number                 : 12.30''),
      readdirSync = (\<lambda>_. Inr []), dateParse = refParse, localFields = utcFields\<rparr>"

section \<open>The retry loop\<close>

text \<open>
  Below \<open>2^53\<close> the arithmetic of the loop is exact, and the candidate names of
  different indices from 0 on are different.
\<close>

lemma parseDigits_snoc: "parseDigits (xs @ [c]) = 10 * parseDigits xs + int (digitVal c)"
  by (simp add: parseDigits_def)

lemma digitVal_digitChar: "d < 10 \<Longrightarrow> digitVal (digitChar d) = d"
proof -
  assume "d < 10"
  then have "d \<in> {0, 1, 2, 3, 4, 5, 6, 7, 8, 9}" by auto
  then show ?thesis by (auto simp: digitVal_def digitChar_def)
qed

lemma parseDigits_decimal: "0 \<le> n \<Longrightarrow> parseDigits (decimal n) = n"
proof (induction n rule: decimal.induct)
  case (1 n)
  show ?case
  proof (cases "n < 10")
    case True
    with 1(2) have "nat n < 10" by simp
    then show ?thesis using True 1(2)
      by (subst decimal.simps) (simp add: parseDigits_def digitVal_digitChar)
  next
    case False
    with 1 have "parseDigits (decimal (n div 10)) = n div 10" by simp
    moreover have "nat (n mod 10) < 10" by simp
    ultimately show ?thesis using False
      by (subst decimal.simps) (simp add: parseDigits_snoc digitVal_digitChar)
  qed
qed

lemma decimal_inj: "0 \<le> a \<Longrightarrow> 0 \<le> b \<Longrightarrow> decimal a = decimal b \<Longrightarrow> a = b"
  by (metis parseDigits_decimal)

lemma toDouble_small: "\<bar>m\<bar> < 9007199254740992 \<Longrightarrow> toDouble m = Num m"
  by (simp add: toDouble_def Let_def)

lemma jsAdd1_small:
  "- 9007199254740992 < n \<Longrightarrow> n + 1 < 9007199254740992 \<Longrightarrow> jsAdd1 (Num n) = Num (n + 1)"
  by (simp add: jsAdd1_def toDouble_small)

lemma candidate_small:
  "0 \<le> n \<Longrightarrow> n + 1 < 9007199254740992 \<Longrightarrow>
   candidate fd e (Num n) = fd @ ''_'' @ decimal (n + 1) @ e"
  by (simp add: candidate_def jsNegative_def jsAdd1_small jsToString_def posToString_def)

lemma candidate_inj:
  assumes "0 \<le> i" "i + 1 < 9007199254740992" "0 \<le> j" "j + 1 < 9007199254740992"
    and "candidate fd e (Num i) = candidate fd e (Num j)"
  shows "i = j"
proof -
  from assms have "decimal (i + 1) = decimal (j + 1)"
    by (simp add: candidate_small)
  with assms(1,3) have "i + 1 = j + 1" by (intro decimal_inj) simp_all
  then show ?thesis by simp
qed

text \<open>
  What the loop returns is free; and the loop does not return from an index whose
  candidate is known and which \<^verbatim>\<open>idx += 1\<close> does not change.
\<close>

lemma loop_returns_free:
  assumes "nextAvailableIndex_loop known fd e start = Some idx"
  shows "candidate fd e idx \<notin> set known"
proof (rule nextAvailableIndex_loop.raw_induct
    [where P = "\<lambda>known fd e start idx. candidate fd e idx \<notin> set known"])
  show "nextAvailableIndex_loop known fd e start = Some idx" by (rule assms)
next
  fix loop :: "string list \<Rightarrow> string \<Rightarrow> string \<Rightarrow> jsnum \<Rightarrow> jsnum option"
  fix known fd e start idx
  assume IH: "\<And>known fd e start idx. loop known fd e start = Some idx
                \<Longrightarrow> candidate fd e idx \<notin> set known"
    and eq: "(if candidate fd e start \<notin> set known then Some start
              else loop known fd e (jsAdd1 start)) = Some idx"
  show "candidate fd e idx \<notin> set known"
  proof (cases "candidate fd e start \<notin> set known")
    case True
    with eq show ?thesis by simp
  next
    case False
    with eq have "loop known fd e (jsAdd1 start) = Some idx" by simp
    then show ?thesis by (rule IH)
  qed
qed

lemma loop_stuck:
  assumes "candidate fd e idx \<in> set known" and "jsAdd1 idx = idx"
  shows "nextAvailableIndex_loop known fd e idx = None"
proof (cases "nextAvailableIndex_loop known fd e idx")
  case None
  then show ?thesis .
next
  case (Some r)
  have "\<not> (candidate fd e idx \<in> set known \<and> jsAdd1 idx = idx)"
  proof (rule nextAvailableIndex_loop.raw_induct
      [where P = "\<lambda>known fd e idx r. \<not> (candidate fd e idx \<in> set known \<and> jsAdd1 idx = idx)"])
    show "nextAvailableIndex_loop known fd e idx = Some r" by (rule Some)
  next
    fix loop :: "string list \<Rightarrow> string \<Rightarrow> string \<Rightarrow> jsnum \<Rightarrow> jsnum option"
    fix known fd e idx r
    assume IH: "\<And>known fd e idx r. loop known fd e idx = Some r
                  \<Longrightarrow> \<not> (candidate fd e idx \<in> set known \<and> jsAdd1 idx = idx)"
      and eq: "(if candidate fd e idx \<notin> set known then Some idx
                else loop known fd e (jsAdd1 idx)) = Some r"
    show "\<not> (candidate fd e idx \<in> set known \<and> jsAdd1 idx = idx)"
    proof
      assume a: "candidate fd e idx \<in> set known \<and> jsAdd1 idx = idx"
      with eq have "loop known fd e idx = Some r" by simp
      from IH [OF this] a show False by simp
    qed
  qed
  with assms show ?thesis by simp
qed

text \<open>
  Among the first indices from \<open>max start 0\<close> on, one more than there are known names,
  some candidate is free, and the loop returns the first free index.
\<close>

lemma loop_reaches:
  assumes "n \<le> r" "- 9007199254740992 < n" "r + 1 < 9007199254740992"
    and "candidate fd e (Num r) \<notin> set known"
    and "\<forall>j. n \<le> j \<and> j < r \<longrightarrow> candidate fd e (Num j) \<in> set known"
  shows "nextAvailableIndex_loop known fd e (Num n) = Some (Num r)"
  using assms
proof (induction "nat (r - n)" arbitrary: n)
  case 0
  then have "n = r" by simp
  with 0 show ?case by (subst nextAvailableIndex_loop.simps) simp
next
  case (Suc k)
  then have lt: "n < r" by simp
  with Suc.prems have c: "candidate fd e (Num n) \<in> set known" by simp
  have step: "jsAdd1 (Num n) = Num (n + 1)"
    using Suc.prems lt by (intro jsAdd1_small) simp_all
  have "nextAvailableIndex_loop known fd e (Num (n + 1)) = Some (Num r)"
  proof (rule Suc.hyps(1))
    show "k = nat (r - (n + 1))" using Suc.hyps(2) by simp
    show "n + 1 \<le> r" using lt by simp
    show "- 9007199254740992 < n + 1" using Suc.prems by simp
    show "r + 1 < 9007199254740992" using Suc.prems by simp
    show "candidate fd e (Num r) \<notin> set known" using Suc.prems by simp
    show "\<forall>j. n + 1 \<le> j \<and> j < r \<longrightarrow> candidate fd e (Num j) \<in> set known"
      using Suc.prems by simp
  qed
  with c step show ?case by (subst nextAvailableIndex_loop.simps) simp
qed

lemma free_index_exists:
  assumes "0 \<le> m" and "m + int (length known) + 1 < 9007199254740992"
  shows "\<exists>j. m \<le> j \<and> j \<le> m + int (length known) \<and> candidate fd e (Num j) \<notin> set known"
proof (rule ccontr)
  assume "\<not> ?thesis"
  then have all: "\<And>j. m \<le> j \<Longrightarrow> j \<le> m + int (length known) \<Longrightarrow> candidate fd e (Num j) \<in> set known"
    by blast
  let ?I = "{m .. m + int (length known)}"
  have inj: "inj_on (\<lambda>j. candidate fd e (Num j)) ?I"
    using assms by (auto simp: inj_on_def intro: candidate_inj)
  have "(\<lambda>j. candidate fd e (Num j)) ` ?I \<subseteq> set known" using all by auto
  then have "card ((\<lambda>j. candidate fd e (Num j)) ` ?I) \<le> card (set known)"
    by (intro card_mono) simp_all
  then have "card ?I \<le> card (set known)" using inj by (simp add: card_image)
  moreover have "card ?I = length known + 1" by simp
  moreover have "card (set known) \<le> length known" by (rule card_length)
  ultimately show False by simp
qed

lemma first_free_index:
  assumes "- 9007199254740992 < start"
    and "max start 0 + int (length known) + 1 < 9007199254740992"
  shows "\<exists>r. start \<le> r \<and> r \<le> max start 0 + int (length known) \<and>
             candidate fd e (Num r) \<notin> set known \<and>
             (\<forall>j. start \<le> j \<and> j < r \<longrightarrow> candidate fd e (Num j) \<in> set known)"
proof -
  from free_index_exists [of "max start 0" known fd e] assms(2)
  obtain j0 where j0: "max start 0 \<le> j0" "j0 \<le> max start 0 + int (length known)"
    "candidate fd e (Num j0) \<notin> set known" by auto
  define P where "P k \<longleftrightarrow> candidate fd e (Num (start + int k)) \<notin> set known" for k
  have "P (nat (j0 - start))" using j0 by (simp add: P_def)
  define k where "k = (LEAST k. P k)"
  have Pk: "P k" unfolding k_def using \<open>P (nat (j0 - start))\<close> by (rule LeastI)
  have le: "k \<le> nat (j0 - start)" unfolding k_def using \<open>P (nat (j0 - start))\<close> by (rule Least_le)
  have below: "\<not> P i" if "i < k" for i using that unfolding k_def by (rule not_less_Least)
  show ?thesis
  proof (intro exI [of _ "start + int k"] conjI allI impI)
    show "start \<le> start + int k" by simp
    show "start + int k \<le> max start 0 + int (length known)" using le j0 by simp
    show "candidate fd e (Num (start + int k)) \<notin> set known" using Pk by (simp add: P_def)
    fix j assume j: "start \<le> j \<and> j < start + int k"
    then have "nat (j - start) < k" by linarith
    from below [OF this] j show "candidate fd e (Num j) \<in> set known" by (simp add: P_def)
  qed
qed





section \<open>What a call of \<open>replace\<close> does to the engine\<close>

lemma getDirCache_loaded:
  "dirCache s d = Some known \<Longrightarrow> getDirCache h s d = (known, s)"
  by (simp add: getDirCache_def)

lemma getDirCache_stores:
  "getDirCache h s d = (known, sA) \<Longrightarrow> dirCache sA d = Some known"
  by (cases "dirCache s d") (auto simp: getDirCache_def Let_def)

lemma getDirCache_indexMap:
  "getDirCache h s d = (known, sA) \<Longrightarrow> indexMap sA = indexMap s"
  by (cases "dirCache s d") (auto simp: getDirCache_def Let_def)

text \<open>The suffix text of an index, as \<^verbatim>\<open>replace\<close> builds it.\<close>

definition indexStr :: "jsnum \<Rightarrow> string" where
  "indexStr idx = (if jsNegative idx then [] else ''_'' @ jsToString (jsAdd1 idx))"

lemma candidate_indexStr: "candidate fd e idx = fd @ indexStr idx @ e"
  by (simp add: candidate_def indexStr_def)

text \<open>
  The second \<^verbatim>\<open>try\<close> block, once the date is formatted and the directory listed:
  the index the loop starts from, and what the block returns and leaves behind when the
  loop returns and when it does not.
\<close>

lemma replace_rename_exact:
  assumes fmt: "format h dt = Inr fd"
    and gd: "getDirCache h s (dir file) = (known, sA)"
  shows "replace_rename h s file dt =
           (let e = toLowerCase (ext file);
                baseKey = path_join (dir file) (fd @ e);
                start = (case indexMap s baseKey of
                           None \<Rightarrow> maxSuffixOf fd e known
                         | Some n \<Rightarrow> n)
            in case nextAvailableIndex_loop known fd e start of
                 None \<Rightarrow> (None, sA\<lparr>indexMap := (indexMap s)(baseKey \<mapsto> start)\<rparr>)
               | Some idx \<Rightarrow>
                   (Some (Inr (path_join (dir file) (fd @ indexStr idx @ ext file))),
                    sA\<lparr>indexMap := (indexMap s)(baseKey \<mapsto> idx),
                        dirCache := (dirCache sA)(dir file \<mapsto>
                          setAdd known (fd @ indexStr idx @ e))\<rparr>))"
proof -
  have sA_loaded: "dirCache sA (dir file) = Some known"
    using gd by (rule getDirCache_stores)
  have im: "indexMap sA = indexMap s"
    using gd by (rule getDirCache_indexMap)
  show ?thesis
  proof (cases "indexMap s (path_join (dir file) (fd @ toLowerCase (ext file)))")
    case None
    then show ?thesis
      by (simp add: replace_rename_def fmt Let_def computeInitialIndex_def gd
          nextAvailableIndex_def addToDirCache_def getDirCache_loaded sA_loaded indexStr_def im
          split: option.splits)
  next
    case (Some n)
    then have "(indexMap s)(path_join (dir file) (fd @ toLowerCase (ext file)) \<mapsto> n) = indexMap s"
      by (rule map_upd_triv)
    with Some show ?thesis
      by (simp add: replace_rename_def fmt Let_def gd nextAvailableIndex_def
          addToDirCache_def getDirCache_loaded sA_loaded indexStr_def im
          split: option.splits)
  qed
qed

lemma replace_rename_effect:
  assumes fmt: "format h dt = Inr fd"
    and gd: "getDirCache h s (dir file) = (known, sA)"
  shows "(\<exists>im. replace_rename h s file dt = (None, sA\<lparr>indexMap := im\<rparr>)) \<or>
         (\<exists>idx im. replace_rename h s file dt =
           (Some (Inr (path_join (dir file) (fd @ indexStr idx @ ext file))),
            sA\<lparr>indexMap := im,
                dirCache := (dirCache sA)(dir file \<mapsto>
                  setAdd known (fd @ indexStr idx @ toLowerCase (ext file)))\<rparr>)
         \<and> fd @ indexStr idx @ toLowerCase (ext file) \<notin> set known)"
proof -
  define start where "start = (case indexMap s (path_join (dir file) (fd @ toLowerCase (ext file))) of
                           None \<Rightarrow> maxSuffixOf fd (toLowerCase (ext file)) known
                         | Some n \<Rightarrow> n)"
  show ?thesis
  proof (cases "nextAvailableIndex_loop known fd (toLowerCase (ext file)) start")
    case None
    with replace_rename_exact [OF fmt gd]
    have "replace_rename h s file dt =
            (None, sA\<lparr>indexMap := (indexMap s)
               (path_join (dir file) (fd @ toLowerCase (ext file)) \<mapsto> start)\<rparr>)"
      by (simp add: Let_def start_def)
    then show ?thesis by blast
  next
    case (Some idx)
    from loop_returns_free [OF Some]
    have "fd @ indexStr idx @ toLowerCase (ext file) \<notin> set known"
      by (simp add: candidate_indexStr)
    moreover from Some replace_rename_exact [OF fmt gd]
    have "replace_rename h s file dt =
           (Some (Inr (path_join (dir file) (fd @ indexStr idx @ ext file))),
            sA\<lparr>indexMap := (indexMap s)
                  (path_join (dir file) (fd @ toLowerCase (ext file)) \<mapsto> idx),
                dirCache := (dirCache sA)(dir file \<mapsto>
                  setAdd known (fd @ indexStr idx @ toLowerCase (ext file)))\<rparr>)"
      by (simp add: Let_def start_def)
    ultimately show ?thesis by blast
  qed
qed

text \<open>
  Whether a call renames: the file is an image or a video, a date is resolved and it can
  be formatted. Nothing of this depends on the engine. \<open>formatted\<close> is the text of
  that date.
\<close>

definition renames :: "host \<Rightarrow> string \<Rightarrow> bool" where
  "renames h filePath \<longleftrightarrow>
     (let file = path_parse filePath in
      (isImage file \<or> isVideo file) \<and>
      (case getDate h filePath of
         Inr (Some d) \<Rightarrow> (case format h d of Inr _ \<Rightarrow> True | Inl _ \<Rightarrow> False)
       | _ \<Rightarrow> False))"

definition formatted :: "host \<Rightarrow> string \<Rightarrow> string" where
  "formatted h filePath =
     (case getDate h filePath of
        Inr (Some d) \<Rightarrow> (case format h d of Inr fd \<Rightarrow> fd | Inl _ \<Rightarrow> [])
      | _ \<Rightarrow> [])"

lemma replace_not_renames:
  "\<not> renames h p \<Longrightarrow> replace h s p = (Some (Inr p), s)"
  by (auto simp: renames_def replace_def replace_rename_def Let_def
      split: sum.splits option.splits)

lemma renames_cases:
  assumes "renames h p"
  obtains dt where "isImage (path_parse p) \<or> isVideo (path_parse p)"
    "getDate h p = Inr (Some dt)" "format h dt = Inr (formatted h p)"
proof -
  from assms have el: "isImage (path_parse p) \<or> isVideo (path_parse p)"
    by (simp add: renames_def Let_def)
  from assms obtain dt where g: "getDate h p = Inr (Some dt)"
    by (cases "getDate h p") (auto simp: renames_def Let_def split: option.splits)
  from assms g obtain fd where f: "format h dt = Inr fd"
    by (cases "format h dt") (auto simp: renames_def Let_def)
  have "formatted h p = fd" by (simp add: formatted_def g f)
  with el g f that show ?thesis by simp
qed

lemma replace_renames_rename:
  assumes "renames h p"
  shows "\<exists>dt. format h dt = Inr (formatted h p) \<and>
           replace h s p = replace_rename h s (path_parse p) dt"
proof -
  from assms obtain dt where el: "isImage (path_parse p) \<or> isVideo (path_parse p)"
    and g: "getDate h p = Inr (Some dt)" and f: "format h dt = Inr (formatted h p)"
    by (rule renames_cases)
  obtain known sA where gd: "getDirCache h s (dir (path_parse p)) = (known, sA)"
    by (cases "getDirCache h s (dir (path_parse p))")
  from replace_rename_effect [OF f gd]
  have "replace h s p = replace_rename h s (path_parse p) dt"
    using el by (auto simp: replace_def Let_def g)
  with f show ?thesis by blast
qed

lemma replace_renames:
  assumes "renames h p" and gd: "getDirCache h s (dir (path_parse p)) = (known, sA)"
  shows "(\<exists>im. replace h s p = (None, sA\<lparr>indexMap := im\<rparr>)) \<or>
         (\<exists>idx im. replace h s p =
           (Some (Inr (path_join (dir (path_parse p)) (formatted h p @ indexStr idx @ ext (path_parse p)))),
            sA\<lparr>indexMap := im,
                dirCache := (dirCache sA)(dir (path_parse p) \<mapsto>
                   setAdd known (formatted h p @ indexStr idx @ toLowerCase (ext (path_parse p))))\<rparr>)
         \<and> formatted h p @ indexStr idx @ toLowerCase (ext (path_parse p)) \<notin> set known)"
proof -
  from replace_renames_rename [OF assms(1), of s] obtain dt where
    f: "format h dt = Inr (formatted h p)"
    and r: "replace h s p = replace_rename h s (path_parse p) dt" by blast
  from replace_rename_effect [OF f gd] show ?thesis unfolding r .
qed

lemma replace_renames_exact:
  assumes "renames h p" and gd: "getDirCache h s (dir (path_parse p)) = (known, sA)"
  shows "fst (replace h s p) =
           (let file = path_parse p;
                fd = formatted h p;
                e = toLowerCase (ext file);
                start = (case indexMap s (path_join (dir file) (fd @ e)) of
                           None \<Rightarrow> maxSuffixOf fd e known
                         | Some n \<Rightarrow> n)
            in map_option (\<lambda>idx. Inr (path_join (dir file) (fd @ indexStr idx @ ext file)))
                 (nextAvailableIndex_loop known fd e start))"
proof -
  from replace_renames_rename [OF assms(1), of s] obtain dt where
    f: "format h dt = Inr (formatted h p)"
    and r: "replace h s p = replace_rename h s (path_parse p) dt" by blast
  show ?thesis
    unfolding r replace_rename_exact [OF f gd]
    by (simp add: Let_def split: option.splits)
qed

text \<open>
  A call that renames returns when the index its loop starts from, the stored one or
  the one read from the directory, is in the range where the loop is exact.
\<close>

lemma replace_returns_in_range:
  assumes r: "renames h p" and gd: "getDirCache h s (dir (path_parse p)) = (known, sA)"
    and st: "(case indexMap s (path_join (dir (path_parse p))
                               (formatted h p @ toLowerCase (ext (path_parse p)))) of
                None \<Rightarrow> maxSuffixOf (formatted h p) (toLowerCase (ext (path_parse p))) known
              | Some n \<Rightarrow> n) = Num start"
    and b: "- 9007199254740992 < start"
      "max start 0 + int (length known) + 1 < 9007199254740992"
  shows "\<exists>out. fst (replace h s p) = Some (Inr out)"
proof -
  from first_free_index [OF b, of "formatted h p" "toLowerCase (ext (path_parse p))"]
  obtain i where i: "start \<le> i" "i \<le> max start 0 + int (length known)"
    "candidate (formatted h p) (toLowerCase (ext (path_parse p))) (Num i) \<notin> set known"
    "\<forall>j. start \<le> j \<and> j < i \<longrightarrow>
       candidate (formatted h p) (toLowerCase (ext (path_parse p))) (Num j) \<in> set known"
    by blast
  have "nextAvailableIndex_loop known (formatted h p) (toLowerCase (ext (path_parse p)))
          (Num start) = Some (Num i)"
    using i b by (intro loop_reaches) simp_all
  then show ?thesis
    unfolding replace_renames_exact [OF r gd] by (simp add: Let_def st)
qed

text \<open>
  C2. \<^verbatim>\<open>replace\<close> never throws: a call returns a path, unless it stays in the retry
  loop and returns nothing at all. When the resolver throws (the subprocess fails, or a
  base name cannot be matched) and when the resolved date cannot be formatted, the path
  returned is the input path and the engine is unchanged.
\<close>

theorem replace_never_raises:
  "(fst (replace h s p) = None \<or> (\<exists>out. fst (replace h s p) = Some (Inr out))) \<and>
   ((\<exists>e. getDate h p = Inl e) \<longrightarrow> replace h s p = (Some (Inr p), s)) \<and>
   (\<forall>d e. getDate h p = Inr (Some d) \<and> format h d = Inl e
      \<longrightarrow> replace h s p = (Some (Inr p), s))"
proof (intro conjI)
  show "fst (replace h s p) = None \<or> (\<exists>out. fst (replace h s p) = Some (Inr out))"
  proof (cases "renames h p")
    case False
    then show ?thesis by (simp add: replace_not_renames)
  next
    case True
    obtain known sA where "getDirCache h s (dir (path_parse p)) = (known, sA)"
      by (cases "getDirCache h s (dir (path_parse p))")
    from replace_renames [OF True this] show ?thesis by auto
  qed
next
  show "(\<exists>e. getDate h p = Inl e) \<longrightarrow> replace h s p = (Some (Inr p), s)"
    by (auto simp: renames_def Let_def intro!: replace_not_renames)
next
  show "\<forall>d e. getDate h p = Inr (Some d) \<and> format h d = Inl e
          \<longrightarrow> replace h s p = (Some (Inr p), s)"
    by (auto simp: renames_def Let_def intro!: replace_not_renames)
qed

text \<open>A host without \<^verbatim>\<open>exiftool\<close> and without a readable directory.\<close>

definition throwingHost :: host where
  "throwingHost = \<lparr>execSync = (\<lambda>_. Inl ExecError), readdirSync = (\<lambda>_. Inl FsError),
      dateParse = refParse, localFields = utcFields\<rparr>"

theorem replace_never_raises_witness:
  "getDate throwingHost ''/photos/IMG_0001.jpg'' = Inl ExecError \<and>
   replace throwingHost newEngine ''/photos/IMG_0001.jpg''
     = (Some (Inr ''/photos/IMG_0001.jpg''), newEngine)"
  using replace_never_raises [of throwingHost newEngine "''/photos/IMG_0001.jpg''"]
  by (simp add: getDate_def throwingHost_def getExif_def isCorrectFileName_def
      path_parse_def stripTrailingSlashes_def lastComponent_def splitExt_def split_first_def
      js_match_def date_pattern_def isDigit_def Let_def)

text \<open>
  A call that does not return: the directory holds the name with the suffix \<open>2^53\<close>,
  which is where \<^verbatim>\<open>#computeInitialIndex\<close> starts and where the retry loop stays.
\<close>

lemma replace_does_not_return:
  "fst (replace (mediaHost ''2020:01:01 01:02:03'' [''20200101_010203_9007199254740992.jpg''])
         newEngine ''/d/a.jpg'') = None"
proof -
  let ?h = "mediaHost ''2020:01:01 01:02:03'' [''20200101_010203_9007199254740992.jpg'']"
  have r: "renames ?h ''/d/a.jpg''" by code_simp
  have v: "formatted ?h ''/d/a.jpg'' = ''20200101_010203''"
    "dir (path_parse ''/d/a.jpg'') = ''/d''"
    "toLowerCase (ext (path_parse ''/d/a.jpg'')) = ''.jpg''"
    "maxSuffixOf ''20200101_010203'' ''.jpg'' [''20200101_010203_9007199254740992.jpg'']
       = Num 9007199254740992"
    "jsAdd1 (Num 9007199254740992) = Num 9007199254740992"
    "candidate ''20200101_010203'' ''.jpg'' (Num 9007199254740992)
       = ''20200101_010203_9007199254740992.jpg''"
    by code_simp+
  have k: "fst (getDirCache ?h newEngine ''/d'') = [''20200101_010203_9007199254740992.jpg'']"
    by code_simp
  then obtain sA where gd: "getDirCache ?h newEngine (dir (path_parse ''/d/a.jpg''))
      = ([''20200101_010203_9007199254740992.jpg''], sA)"
    unfolding v by (cases "getDirCache ?h newEngine ''/d''") auto
  have l: "nextAvailableIndex_loop [''20200101_010203_9007199254740992.jpg'']
          ''20200101_010203'' ''.jpg'' (Num 9007199254740992) = None"
    by (rule loop_stuck) (simp_all add: v)
  show ?thesis
    unfolding replace_renames_exact [OF r gd]
    by (simp add: Let_def v newEngine_def l)
qed

section \<open>Directory listings\<close>








section \<open>The filename source\<close>

text \<open>
  C7. A base name that holds the pattern \<^verbatim>\<open>\d{8}_\d{6,}\<close> twice: the filename source
  is not skipped. \<^verbatim>\<open>match.length\<close> counts the capture groups of the one leftmost
  match, not the occurrences, so the guard \<^verbatim>\<open>match.length > 1\<close> never holds and the
  date is parsed from the first occurrence.
\<close>

theorem getDateFromFileName_first_of_two:
  "getDateFromFileName h (path_parse ''/m/IMG_20200101_010203_20210202_020304.jpg'')
     = Inr (Some (dateParse h ''20200101_010203'' ''yyyyMMdd_HHmmss''))"
  by (simp add: getDateFromFileName_def path_parse_def stripTrailingSlashes_def
      lastComponent_def splitExt_def split_first_def js_match_def date_pattern_def isDigit_def
      substring0_def Let_def)

section \<open>The order of the sources\<close>

lemma eligible_ext_nonempty:
  "isImage file \<or> isVideo file \<Longrightarrow> ext file \<noteq> []"
  by (auto simp: isImage_def isVideo_def endsWith_def toLowerCase_def)

lemma split_char_head:
  "\<exists>rest. split_char c v = takeWhile (\<lambda>x. x \<noteq> c) v # rest"
  by (induction v) (auto split: list.splits)

text \<open>
  What each source yields. The metadata source yields a \<^verbatim>\<open>Date\<close> as soon as the map
  has a \<^verbatim>\<open>CreateDate\<close>, and a filename source as soon as its pattern occurs in the
  base name before the extension; what is parsed may be the invalid date. For an
  eligible path, whose extension is not empty, the filename sources do not throw.
\<close>

lemma getDateFromExif_value:
  "getDateFromExif h file m =
     map_option (\<lambda>v. dateParse h (takeWhile (\<lambda>c. c \<noteq> CHR ''.'') v) ''yyyy:MM:dd HH:mm:ss'')
       (m ''CreateDate'')"
proof (cases "m ''CreateDate''")
  case None
  then show ?thesis by (simp add: getDateFromExif_def)
next
  case (Some v)
  obtain rest where "split_char CHR ''.'' v = takeWhile (\<lambda>c. c \<noteq> CHR ''.'') v # rest"
    using split_char_head by blast
  with Some show ?thesis by (simp add: getDateFromExif_def)
qed

lemma sources_return:
  assumes "ext file \<noteq> []"
  shows "\<exists>c. isCorrectFileName file = Inr c"
    and "getDateFromFileName h file =
           Inr (map_option (\<lambda>(i, x). dateParse h (take 15 x) ''yyyyMMdd_HHmmss'')
                  (regex_search date_pattern (before_first (ext file) (base file)) 0))"
    and "getDateFromUnixTimestamp file =
           Inr (map_option (\<lambda>(i, x). newDate (parseDigits (take 13 x)))
                  (regex_search epoch_pattern (before_first (ext file) (base file)) 0))"
  using assms
  by (auto simp: isCorrectFileName_def getDateFromFileName_def getDateFromUnixTimestamp_def
      split_first_def js_match_def substring0_def split: option.splits)

text \<open>
  C4, as the code has it. For an eligible path no source throws but the metadata reader,
  and each source yields a \<^verbatim>\<open>Date\<close>, valid or not, as soon as its key or pattern is
  there. A name that is already canonical yields no date. Otherwise the metadata is read
  first: when that throws, the resolver throws, no other source is tried and
  \<^verbatim>\<open>replace\<close> returns the path as it is. When it returns, the resolver returns the
  \<^verbatim>\<open>Date\<close> of the first source that yields one, in the order metadata,
  \<^verbatim>\<open>yyyyMMdd_HHmmss\<close> pattern of the name, epoch-milliseconds pattern of the name,
  whatever the later sources hold.
\<close>

theorem getDate_first_source:
  assumes "isImage (path_parse p) \<or> isVideo (path_parse p)"
  shows "(\<exists>c. isCorrectFileName (path_parse p) = Inr c) \<and>
         (\<forall>m. getDateFromExif h (path_parse p) m =
            map_option (\<lambda>v. dateParse h (takeWhile (\<lambda>c. c \<noteq> CHR ''.'') v)
                              ''yyyy:MM:dd HH:mm:ss'') (m ''CreateDate'')) \<and>
         getDateFromFileName h (path_parse p) =
           Inr (map_option (\<lambda>(i, x). dateParse h (take 15 x) ''yyyyMMdd_HHmmss'')
                  (regex_search date_pattern
                     (before_first (ext (path_parse p)) (base (path_parse p))) 0)) \<and>
         getDateFromUnixTimestamp (path_parse p) =
           Inr (map_option (\<lambda>(i, x). newDate (parseDigits (take 13 x)))
                  (regex_search epoch_pattern
                     (before_first (ext (path_parse p)) (base (path_parse p))) 0)) \<and>
         (isCorrectFileName (path_parse p) = Inr True \<longrightarrow> getDate h p = Inr None) \<and>
         (isCorrectFileName (path_parse p) = Inr False \<longrightarrow>
            (\<forall>e. getExif h p = Inl e \<longrightarrow>
                 getDate h p = Inl e \<and> replace h s p = (Some (Inr p), s)) \<and>
            (\<forall>m. getExif h p = Inr m \<longrightarrow>
               (\<forall>d. getDateFromExif h (path_parse p) m = Some d \<longrightarrow> getDate h p = Inr (Some d)) \<and>
               (\<forall>d. getDateFromExif h (path_parse p) m = None \<and>
                    getDateFromFileName h (path_parse p) = Inr (Some d)
                      \<longrightarrow> getDate h p = Inr (Some d)) \<and>
               (getDateFromExif h (path_parse p) m = None \<and>
                getDateFromFileName h (path_parse p) = Inr None
                  \<longrightarrow> getDate h p = getDateFromUnixTimestamp (path_parse p))))"
proof -
  from assms have ne: "ext (path_parse p) \<noteq> []" by (rule eligible_ext_nonempty)
  have thrown: "getDate h p = Inl e \<and> replace h s p = (Some (Inr p), s)"
    if "isCorrectFileName (path_parse p) = Inr False" "getExif h p = Inl e" for e
  proof -
    from that have g: "getDate h p = Inl e" by (simp add: getDate_def Let_def)
    then have "\<not> renames h p" by (simp add: renames_def Let_def)
    with g show ?thesis by (simp add: replace_not_renames)
  qed
  have order: "(\<forall>d. getDateFromExif h (path_parse p) m = Some d \<longrightarrow> getDate h p = Inr (Some d)) \<and>
               (\<forall>d. getDateFromExif h (path_parse p) m = None \<and>
                    getDateFromFileName h (path_parse p) = Inr (Some d)
                      \<longrightarrow> getDate h p = Inr (Some d)) \<and>
               (getDateFromExif h (path_parse p) m = None \<and>
                getDateFromFileName h (path_parse p) = Inr None
                  \<longrightarrow> getDate h p = getDateFromUnixTimestamp (path_parse p))"
    if "isCorrectFileName (path_parse p) = Inr False" "getExif h p = Inr m" for m
    using that by (simp add: getDate_def Let_def)
  have canon: "isCorrectFileName (path_parse p) = Inr True \<longrightarrow> getDate h p = Inr None"
    by (simp add: getDate_def Let_def)
  show ?thesis
  proof (intro conjI)
    show "\<exists>c. isCorrectFileName (path_parse p) = Inr c" using ne by (rule sources_return(1))
    show "\<forall>m. getDateFromExif h (path_parse p) m =
            map_option (\<lambda>v. dateParse h (takeWhile (\<lambda>c. c \<noteq> CHR ''.'') v)
                              ''yyyy:MM:dd HH:mm:ss'') (m ''CreateDate'')"
      by (simp add: getDateFromExif_value)
    show "getDateFromFileName h (path_parse p) =
           Inr (map_option (\<lambda>(i, x). dateParse h (take 15 x) ''yyyyMMdd_HHmmss'')
                  (regex_search date_pattern
                     (before_first (ext (path_parse p)) (base (path_parse p))) 0))"
      using ne by (rule sources_return(2))
    show "getDateFromUnixTimestamp (path_parse p) =
           Inr (map_option (\<lambda>(i, x). newDate (parseDigits (take 13 x)))
                  (regex_search epoch_pattern
                     (before_first (ext (path_parse p)) (base (path_parse p))) 0))"
      using ne by (rule sources_return(3))
    show "isCorrectFileName (path_parse p) = Inr True \<longrightarrow> getDate h p = Inr None"
      by (rule canon)
    show "isCorrectFileName (path_parse p) = Inr False \<longrightarrow>
            (\<forall>e. getExif h p = Inl e \<longrightarrow>
                 getDate h p = Inl e \<and> replace h s p = (Some (Inr p), s)) \<and>
            (\<forall>m. getExif h p = Inr m \<longrightarrow>
               (\<forall>d. getDateFromExif h (path_parse p) m = Some d \<longrightarrow> getDate h p = Inr (Some d)) \<and>
               (\<forall>d. getDateFromExif h (path_parse p) m = None \<and>
                    getDateFromFileName h (path_parse p) = Inr (Some d)
                      \<longrightarrow> getDate h p = Inr (Some d)) \<and>
               (getDateFromExif h (path_parse p) m = None \<and>
                getDateFromFileName h (path_parse p) = Inr None
                  \<longrightarrow> getDate h p = getDateFromUnixTimestamp (path_parse p)))"
      using thrown order by blast
  qed
qed

theorem getDate_first_source_witness:
  "getDate (mediaHost ''2020:01:01 01:02:03'' []) ''/d/IMG_20190505_050505_1500000000000.jpg''
     = Inr (Some (Date 1577840523000)) \<and>
   getDate plainHost ''/d/IMG_20190505_050505_1500000000000.jpg''
     = Inr (Some (Date 1557032705000)) \<and>
   getDate plainHost ''/d/IMG_1500000000000.jpg'' = Inr (Some (Date 1500000000000)) \<and>
   getDate throwingHost ''/d/IMG_1500000000000.jpg'' = Inl ExecError \<and>
   replace throwingHost newEngine ''/d/IMG_1500000000000.jpg''
     = (Some (Inr ''/d/IMG_1500000000000.jpg''), newEngine)"
proof -
  let ?p = "''/d/IMG_20190505_050505_1500000000000.jpg''"
  let ?q = "''/d/IMG_1500000000000.jpg''"
  let ?h = "mediaHost ''2020:01:01 01:02:03'' []"
  have el: "isImage (path_parse ?p) \<or> isVideo (path_parse ?p)"
    "isImage (path_parse ?q) \<or> isVideo (path_parse ?q)" by code_simp+
  have c: "isCorrectFileName (path_parse ?p) = Inr False"
    "isCorrectFileName (path_parse ?q) = Inr False" by code_simp+
  have x: "getExif throwingHost ?q = Inl ExecError"
    by (simp add: getExif_def throwingHost_def)
  have e1: "getDate ?h ?p = Inr (Some (Date 1577840523000))" by code_simp
  have e2: "getDate plainHost ?p = Inr (Some (Date 1557032705000))" by code_simp
  have e3: "getDate plainHost ?q = Inr (Some (Date 1500000000000))" by code_simp
  from getDate_first_source [OF el(2), of throwingHost newEngine] c x e1 e2 e3
  show ?thesis by simp
qed

text \<open>
  C4, as the claim states it, fails in two ways. When \<^verbatim>\<open>exiftool\<close> cannot be run,
  the timestamp in the file name is not tried: the resolver throws and the file keeps its
  name. And a source that yields the invalid date has not succeeded, yet it ends the
  search: the digits \<^verbatim>\<open>20201399_010203\<close> match the pattern of the filename source
  and denote no date, and the epoch milliseconds that follow in the name are not used.
\<close>

theorem fallback_order_counterexample:
  "getDate throwingHost ''/photos/IMG_20200101_010203.jpg'' = Inl ExecError \<and>
   getDateFromFileName throwingHost (path_parse ''/photos/IMG_20200101_010203.jpg'')
     = Inr (Some (Date 1577840523000)) \<and>
   fst (replace throwingHost newEngine ''/photos/IMG_20200101_010203.jpg'')
     = Some (Inr ''/photos/IMG_20200101_010203.jpg'') \<and>
   getDate plainHost ''/d/IMG_20201399_010203_1500000000000.jpg'' = Inr (Some InvalidDate) \<and>
   getDateFromUnixTimestamp (path_parse ''/d/IMG_20201399_010203_1500000000000.jpg'')
     = Inr (Some (Date 1500000000000)) \<and>
   fst (replace plainHost newEngine ''/d/IMG_20201399_010203_1500000000000.jpg'')
     = Some (Inr ''/d/IMG_20201399_010203_1500000000000.jpg'')"
  by code_simp

section \<open>A malformed creation date\<close>

lemma getDate_createDate:
  assumes "isCorrectFileName (path_parse p) = Inr False"
    and "getExif h p = Inr m"
    and "m ''CreateDate'' = Some v"
  shows "getDate h p =
           Inr (Some (dateParse h (takeWhile (\<lambda>c. c \<noteq> CHR ''.'') v) ''yyyy:MM:dd HH:mm:ss''))"
proof -
  obtain rest where sp: "split_char CHR ''.'' v = takeWhile (\<lambda>c. c \<noteq> CHR ''.'') v # rest"
    using split_char_head by blast
  show ?thesis
    using assms by (simp add: getDate_def Let_def getDateFromExif_def sp)
qed

text \<open>
  C3, as the code has it. When the metadata holds a \<^verbatim>\<open>CreateDate\<close>, well-formed or
  not, the resolver returns what parsing its text before the first dot yields and looks
  at no other source. For a malformed text that is the invalid date, and \<^verbatim>\<open>replace\<close>
  then returns the input path and leaves the engine as it was.
\<close>

theorem createDate_present_is_final:
  assumes "isCorrectFileName (path_parse p) = Inr False"
    and "getExif h p = Inr m"
    and "m ''CreateDate'' = Some v"
  shows "getDate h p =
           Inr (Some (dateParse h (takeWhile (\<lambda>c. c \<noteq> CHR ''.'') v) ''yyyy:MM:dd HH:mm:ss'')) \<and>
         (dateParse h (takeWhile (\<lambda>c. c \<noteq> CHR ''.'') v) ''yyyy:MM:dd HH:mm:ss'' = InvalidDate
            \<longrightarrow> replace h s p = (Some (Inr p), s))"
proof -
  have g: "getDate h p =
           Inr (Some (dateParse h (takeWhile (\<lambda>c. c \<noteq> CHR ''.'') v) ''yyyy:MM:dd HH:mm:ss''))"
    using assms by (rule getDate_createDate)
  have "\<not> renames h p"
    if "dateParse h (takeWhile (\<lambda>c. c \<noteq> CHR ''.'') v) ''yyyy:MM:dd HH:mm:ss'' = InvalidDate"
    using that g by (simp add: renames_def Let_def format_def)
  then show ?thesis using g by (auto intro: replace_not_renames)
qed

theorem createDate_present_is_final_witness:
  "getDate (mediaHost ''0000:00:00 00:00:00'' []) ''/d/IMG_20200101_010203.jpg''
     = Inr (Some InvalidDate) \<and>
   replace (mediaHost ''0000:00:00 00:00:00'' []) newEngine ''/d/IMG_20200101_010203.jpg''
     = (Some (Inr ''/d/IMG_20200101_010203.jpg''), newEngine)"
proof -
  let ?p = "''/d/IMG_20200101_010203.jpg''"
  let ?h = "mediaHost ''0000:00:00 00:00:00'' []"
  have c: "isCorrectFileName (path_parse ?p) = Inr False" by code_simp
  obtain m where m: "getExif ?h ?p = Inr m" and v: "m ''CreateDate'' = Some ''0000:00:00 00:00:00''"
    by (simp add: getExif_def mediaHost_def exifOutput_def exifLine_def trim_def isSpace_def)
  have i: "dateParse ?h (takeWhile (\<lambda>c. c \<noteq> CHR ''.'') ''0000:00:00 00:00:00'') ''yyyy:MM:dd HH:mm:ss'' = InvalidDate"
    by code_simp
  from createDate_present_is_final [OF c m v, of newEngine] i show ?thesis by simp
qed

text \<open>
  C3, as the claim states it, fails: with the creation date \<^verbatim>\<open>0000:00:00 00:00:00\<close>
  and a file name that holds a well-formed timestamp, the resolver returns the invalid
  date, not the date of the file name, and the file keeps its name. Without a creation
  date in the metadata the same file is renamed from its name.
\<close>

theorem malformed_CreateDate_counterexample:
  "getDate (mediaHost ''0000:00:00 00:00:00'' []) ''/d/IMG_20200101_010203.jpg''
     = Inr (Some InvalidDate) \<and>
   getDateFromFileName (mediaHost ''0000:00:00 00:00:00'' []) (path_parse ''/d/IMG_20200101_010203.jpg'')
     = Inr (Some (Date 1577840523000)) \<and>
   fst (replace (mediaHost ''0000:00:00 00:00:00'' []) newEngine ''/d/IMG_20200101_010203.jpg'')
     = Some (Inr ''/d/IMG_20200101_010203.jpg'') \<and>
   fst (replace plainHost newEngine ''/d/IMG_20200101_010203.jpg'')
     = Some (Inr ''/d/20200101_010203.jpg'')"
  by code_simp

section \<open>Joining and parsing paths\<close>

text \<open>A file name that \<^verbatim>\<open>path.join\<close> appends as it is: one segment, not a dot segment.\<close>

definition proper :: "string \<Rightarrow> bool" where
  "proper nm \<longleftrightarrow> nm \<noteq> [] \<and> CHR ''/'' \<notin> set nm \<and> nm \<noteq> ''.'' \<and> nm \<noteq> ''..''"

text \<open>
  What \<^verbatim>\<open>path.join(d, nm)\<close> puts in front of such a name, and the directory
  component of the result: the segments of \<open>d\<close> normalised, joined by single
  separators.
\<close>

definition joinPrefix :: "string \<Rightarrow> string" where
  "joinPrefix d =
     (if d = [] then []
      else
        let isAbsolute = (hd d = CHR ''/'');
            segs = normalizeSegments (\<not> isAbsolute) d
        in (if isAbsolute then ''/'' else []) @
           (if segs = [] then [] else join_with ''/'' segs @ ''/''))"

definition normalizedDir :: "string \<Rightarrow> string" where
  "normalizedDir d =
     (if d = [] then []
      else
        let isAbsolute = (hd d = CHR ''/'')
        in (if isAbsolute then ''/'' else []) @
           join_with ''/'' (normalizeSegments (\<not> isAbsolute) d))"

lemma split_char_not_Nil: "split_char c s \<noteq> []"
  by (induction s) (auto split: list.splits)

lemma split_char_nosep: "c \<notin> set s \<Longrightarrow> split_char c s = [s]"
  by (induction s) auto

lemma split_char_append:
  "c \<notin> set nm \<Longrightarrow> split_char c (d @ c # nm) = split_char c d @ [nm]"
proof (induction d)
  case Nil
  then show ?case by (simp add: split_char_nosep)
next
  case (Cons a d)
  then show ?case
    using split_char_not_Nil [of c d]
    by (cases "split_char c d") auto
qed

lemma join_with_snoc:
  "join_with sep (segs @ [x]) = (if segs = [] then x else join_with sep segs @ sep @ x)"
  by (induction sep segs rule: join_with.induct) auto

lemma normalizeStep_proper:
  "proper nm \<Longrightarrow> normalizeStep b res nm = res @ [nm]"
  by (simp add: normalizeStep_def proper_def)

lemma path_join_proper:
  assumes "proper nm"
  shows "path_join d nm = joinPrefix d @ nm"
proof (cases "d = []")
  case True
  from assms have "nm \<noteq> []" "hd nm \<noteq> CHR ''/''" "last nm \<noteq> CHR ''/''"
    by (auto simp: proper_def dest: hd_in_set last_in_set)
  moreover have "normalizeSegments True nm = [nm]"
    using assms by (simp add: normalizeSegments_def split_char_nosep proper_def normalizeStep_proper)
  ultimately show ?thesis using True
    by (simp add: path_join_def path_normalize_def joinPrefix_def Let_def)
next
  case False
  from assms have nm: "nm \<noteq> []" "last nm \<noteq> CHR ''/''" "CHR ''/'' \<notin> set nm"
    by (auto simp: proper_def dest: last_in_set)
  have segs: "normalizeSegments b (d @ CHR ''/'' # nm) = normalizeSegments b d @ [nm]" for b
    using assms nm by (simp add: normalizeSegments_def split_char_append normalizeStep_proper)
  have hd: "hd (d @ CHR ''/'' # nm) = hd d" using False by simp
  have la: "last (d @ CHR ''/'' # nm) = last nm" using nm by simp
  show ?thesis using False nm
    by (simp add: path_join_def path_normalize_def joinPrefix_def Let_def segs hd la
        join_with_snoc del: last_appendR last_append)
qed

lemma stripTrailingSlashes_append:
  "nm \<noteq> [] \<Longrightarrow> last nm \<noteq> CHR ''/'' \<Longrightarrow> stripTrailingSlashes (X @ nm) = X @ nm"
  by (cases nm rule: rev_cases) (auto simp: stripTrailingSlashes_def)

lemma lastComponent_append:
  assumes "CHR ''/'' \<notin> set nm" "X = [] \<or> last X = CHR ''/''"
  shows "lastComponent (X @ nm) = nm"
proof -
  have "takeWhile (\<lambda>c. c \<noteq> CHR ''/'') (rev nm @ rev X) = rev nm"
  proof (cases "X = []")
    case True
    with assms show ?thesis by (auto simp: takeWhile_eq_all_conv)
  next
    case False
    with assms obtain Y where "X = Y @ ''/''" by (metis append_butlast_last_id)
    with assms show ?thesis by (auto simp: takeWhile_tail takeWhile_eq_all_conv)
  qed
  then show ?thesis by (simp add: lastComponent_def)
qed

lemma path_parse_prefixed:
  assumes nm: "nm \<noteq> []" "CHR ''/'' \<notin> set nm" and D: "D = [] \<or> last D = CHR ''/''"
  shows "base (path_parse (D @ nm)) = nm"
    and "dir (path_parse (D @ nm)) = (if D = ''/'' then ''/'' else butlast D)"
    and "ext (path_parse (D @ nm)) = snd (splitExt (D \<noteq> ''/'') nm)"
proof -
  from nm have lnm: "last nm \<noteq> CHR ''/''" by (auto dest: last_in_set)
  from nm have hnm: "hd nm \<noteq> CHR ''/''" by (auto dest: hd_in_set)
  consider (empty) "D = []" | (root) "D = ''/''" | (abs) T where "D = CHR ''/'' # T" "T \<noteq> []" "last T = CHR ''/''"
    | (rel) "D \<noteq> []" "hd D \<noteq> CHR ''/''" "last D = CHR ''/''"
    using D by (cases D) (auto split: if_splits)
  then have "base (path_parse (D @ nm)) = nm \<and>
      dir (path_parse (D @ nm)) = (if D = ''/'' then ''/'' else butlast D) \<and>
      ext (path_parse (D @ nm)) = snd (splitExt (D \<noteq> ''/'') nm)"
  proof cases
    case empty
    then show ?thesis using nm lnm hnm
      by (simp add: path_parse_def Let_def stripTrailingSlashes_append [of nm "[]", simplified]
          lastComponent_append [of nm "[]", simplified] split_def)
  next
    case root
    then show ?thesis using nm lnm
      by (simp add: path_parse_def Let_def stripTrailingSlashes_append [of nm "[]", simplified]
          lastComponent_append [of nm "[]", simplified] split_def)
  next
    case abs
    have "take (length T) (CHR ''/'' # T @ nm) = CHR ''/'' # butlast T"
      using abs(2) by (cases T rule: rev_cases) auto
    then show ?thesis using abs nm lnm
      by (simp add: path_parse_def Let_def stripTrailingSlashes_append
          lastComponent_append split_def butlast_append)
  next
    case rel
    then have "hd (D @ nm) \<noteq> CHR ''/''" by simp
    moreover have "take (length D - Suc 0) D = butlast D" by (simp add: butlast_conv_take)
    moreover have "D \<noteq> ''/''" using rel by auto
    ultimately show ?thesis using rel nm lnm
      by (simp add: path_parse_def Let_def stripTrailingSlashes_append
          lastComponent_append split_def butlast_append)
  qed
  then show "base (path_parse (D @ nm)) = nm"
    and "dir (path_parse (D @ nm)) = (if D = ''/'' then ''/'' else butlast D)"
    and "ext (path_parse (D @ nm)) = snd (splitExt (D \<noteq> ''/'') nm)" by simp_all
qed

lemma normalizeStep_nonempty:
  "\<forall>x\<in>set res. x \<noteq> [] \<Longrightarrow> \<forall>x\<in>set (normalizeStep b res seg). x \<noteq> []"
  by (auto simp: normalizeStep_def dest: in_set_butlastD)

lemma foldl_normalizeStep_nonempty:
  "\<forall>x\<in>set res. x \<noteq> [] \<Longrightarrow> \<forall>x\<in>set (foldl (normalizeStep b) res segs). x \<noteq> []"
proof (induction segs arbitrary: res)
  case Nil
  then show ?case by simp
next
  case (Cons a segs)
  from Cons.prems have "\<forall>x\<in>set (normalizeStep b res a). x \<noteq> []"
    by (rule normalizeStep_nonempty)
  from Cons.IH [OF this] show ?case by simp
qed

lemma normalizeSegments_nonempty: "\<forall>x\<in>set (normalizeSegments b d). x \<noteq> []"
  unfolding normalizeSegments_def by (rule foldl_normalizeStep_nonempty) simp

lemma join_with_nonempty:
  "segs \<noteq> [] \<Longrightarrow> \<forall>x\<in>set segs. x \<noteq> [] \<Longrightarrow> join_with sep segs \<noteq> []"
  by (induction sep segs rule: join_with.induct) auto

lemma joinPrefix_shape: "joinPrefix d = [] \<or> last (joinPrefix d) = CHR ''/''"
  by (simp add: joinPrefix_def Let_def)

lemma dir_of_joinPrefix:
  "(if joinPrefix d = ''/'' then ''/'' else butlast (joinPrefix d)) = normalizedDir d"
proof (cases "d = []")
  case True
  then show ?thesis by (simp add: joinPrefix_def normalizedDir_def)
next
  case False
  define segs where "segs = normalizeSegments (hd d \<noteq> CHR ''/'') d"
  have jp: "joinPrefix d = (if hd d = CHR ''/'' then ''/'' else []) @
              (if segs = [] then [] else join_with ''/'' segs @ ''/'')"
    using False by (simp add: joinPrefix_def Let_def segs_def)
  have nd: "normalizedDir d = (if hd d = CHR ''/'' then ''/'' else []) @ join_with ''/'' segs"
    using False by (simp add: normalizedDir_def Let_def segs_def)
  show ?thesis
  proof (cases "segs = []")
    case True
    then show ?thesis by (simp add: jp nd)
  next
    case ne: False
    have "\<forall>x\<in>set segs. x \<noteq> []"
      unfolding segs_def by (rule normalizeSegments_nonempty)
    with ne have "join_with ''/'' segs \<noteq> []" by (rule join_with_nonempty)
    with ne show ?thesis by (simp add: jp nd butlast_append)
  qed
qed

lemma dir_parse_join:
  assumes "proper nm"
  shows "dir (path_parse (path_join d nm)) = normalizedDir d"
    and "base (path_parse (path_join d nm)) = nm"
proof -
  from assms have nm: "nm \<noteq> []" "CHR ''/'' \<notin> set nm" by (simp_all add: proper_def)
  show "dir (path_parse (path_join d nm)) = normalizedDir d"
    using path_parse_prefixed(2) [OF nm joinPrefix_shape, of d]
    by (simp only: path_join_proper [OF assms] dir_of_joinPrefix)
  show "base (path_parse (path_join d nm)) = nm"
    using path_parse_prefixed(1) [OF nm joinPrefix_shape, of d]
    by (simp only: path_join_proper [OF assms])
qed

section \<open>The characters of an emitted name\<close>

text \<open>Text made of digits and underscores only.\<close>

definition plainChars :: "string \<Rightarrow> bool" where
  "plainChars s \<longleftrightarrow> (\<forall>c\<in>set s. isDigit c \<or> c = CHR ''_'')"

lemma isDigit_digitChar: "d < 10 \<Longrightarrow> isDigit (digitChar d)"
proof -
  assume "d < 10"
  then have "d \<in> {0, 1, 2, 3, 4, 5, 6, 7, 8, 9}" by auto
  then show ?thesis by (auto simp: isDigit_def digitChar_def)
qed

lemma decimal_digits: "list_all isDigit (decimal n) \<and> decimal n \<noteq> []"
proof (induction n rule: decimal.induct)
  case (1 n)
  have d: "isDigit (digitChar (nat n))" if "n < 10"
    using that by (intro isDigit_digitChar) simp
  have m: "isDigit (digitChar (nat (n mod 10)))"
    by (intro isDigit_digitChar) simp
  show ?case
  proof (cases "n < 10")
    case True
    then show ?thesis by (subst (1 2) decimal.simps) (simp add: d)
  next
    case False
    with 1 show ?thesis by (subst (1 2) decimal.simps) (simp add: m)
  qed
qed

lemma isDigit_zero: "isDigit CHR ''0''"
  by (simp add: isDigit_def)

lemma addLeadingZeros_digits:
  "list_all isDigit (addLeadingZeros n k) \<and> addLeadingZeros n k \<noteq> []"
  using decimal_digits [of "int n"] isDigit_zero
  by (auto simp: addLeadingZeros_def list_all_iff)

lemma plainChars_append [simp]: "plainChars (a @ b) \<longleftrightarrow> plainChars a \<and> plainChars b"
  by (auto simp: plainChars_def)

lemma plainChars_Cons [simp]:
  "plainChars (c # s) \<longleftrightarrow> (isDigit c \<or> c = CHR ''_'') \<and> plainChars s"
  by (auto simp: plainChars_def)

lemma plainChars_digits: "list_all isDigit s \<Longrightarrow> plainChars s"
  by (auto simp: plainChars_def list_all_iff)

lemma addLeadingZeros_plain: "plainChars (addLeadingZeros n k)"
  using addLeadingZeros_digits [of n k] by (simp add: plainChars_digits)

lemma format_plain:
  assumes "format h dt = Inr fd"
  shows "plainChars fd" and "fd \<noteq> []"
proof -
  from assms obtain t where dt: "dt = Date t" by (cases dt) (auto simp: format_def)
  have u: "plainChars ''_''" by (simp add: plainChars_def)
  from assms [unfolded dt format_def Let_def] show "plainChars fd"
    using u by (auto simp: addLeadingZeros_plain)
  from assms [unfolded dt format_def Let_def] show "fd \<noteq> []"
    using addLeadingZeros_digits by auto
qed

lemma toLowerCase_append [simp]: "toLowerCase (a @ b) = toLowerCase a @ toLowerCase b"
  by (simp add: toLowerCase_def)

lemma isDigit_not_special: "isDigit c \<Longrightarrow> c \<noteq> CHR ''/'' \<and> c \<noteq> CHR ''.''"
  by (auto simp: isDigit_def)

lemma plain_no_special:
  "plainChars s \<Longrightarrow> CHR ''/'' \<notin> set s \<and> CHR ''.'' \<notin> set s"
  unfolding plainChars_def using isDigit_not_special by fastforce

text \<open>
  The text of a number holds digits, and possibly a sign, a dot, an exponent mark or the
  letters of \<^verbatim>\<open>Infinity\<close>: never a separator.
\<close>

lemma decimal_no_slash: "CHR ''/'' \<notin> set (decimal n)"
  using decimal_digits [of n] isDigit_not_special by (auto simp: list_all_iff)

lemma stripZeros_subset: "set (stripZeros s) \<subseteq> set s"
  by (auto simp: stripZeros_def dest: set_dropWhileD)

lemma posToString_no_slash: "CHR ''/'' \<notin> set (posToString a)"
proof (cases "stripZeros (decimal (shortestDecimal a))")
  case Nil
  then show ?thesis by (simp add: posToString_def Let_def decimal_no_slash)
next
  case (Cons d rest)
  have "CHR ''/'' \<notin> set (stripZeros (decimal (shortestDecimal a)))"
    using stripZeros_subset decimal_no_slash by blast
  then have "d \<noteq> CHR ''/''" "CHR ''/'' \<notin> set rest" by (auto simp: Cons)
  then show ?thesis by (simp add: posToString_def Let_def decimal_no_slash Cons)
qed

lemma jsToString_no_slash: "CHR ''/'' \<notin> set (jsToString x)"
  by (cases x) (simp_all add: jsToString_def posToString_no_slash)

lemma indexStr_no_slash: "CHR ''/'' \<notin> set (indexStr idx)"
  by (simp add: indexStr_def jsToString_no_slash)

lemma lastComponent_no_slash: "CHR ''/'' \<notin> set (lastComponent s)"
  by (auto simp: lastComponent_def dest: set_takeWhileD)

lemma splitExt_shape:
  "snd (splitExt b c) = [] \<or>
   (\<exists>post. snd (splitExt b c) = CHR ''.'' # post \<and> CHR ''.'' \<notin> set post \<and> set post \<subseteq> set c)"
  by (auto simp: splitExt_def Let_def dest: set_takeWhileD)

lemma ext_shape:
  "ext (path_parse p) = [] \<or>
   (\<exists>post. ext (path_parse p) = CHR ''.'' # post \<and> CHR ''.'' \<notin> set post \<and> CHR ''/'' \<notin> set post)"
proof (cases "p = []")
  case True
  then show ?thesis by (simp add: path_parse_def)
next
  case False
  define c where "c = lastComponent (stripTrailingSlashes (drop (if hd p = CHR ''/'' then 1 else 0) p))"
  obtain b where e: "ext (path_parse p) = snd (splitExt b c)"
    using False by (auto simp: path_parse_def Let_def split_def c_def)
  from splitExt_shape [of b c] lastComponent_no_slash show ?thesis
    unfolding e c_def by blast
qed

section \<open>The directory of the returned path\<close>

lemma eligible_ext:
  assumes "isImage (path_parse p) \<or> isVideo (path_parse p)"
  shows "\<exists>post. ext (path_parse p) = CHR ''.'' # post \<and> CHR ''.'' \<notin> set post \<and>
           CHR ''/'' \<notin> set post"
proof -
  have "ext (path_parse p) \<noteq> []"
    using assms by (auto simp: isImage_def isVideo_def endsWith_def toLowerCase_def)
  with ext_shape [of p] show ?thesis by blast
qed

lemma renames_name_proper:
  assumes "renames h p"
  shows "proper (formatted h p @ indexStr idx @ ext (path_parse p))"
    and "plainChars (formatted h p)" and "formatted h p \<noteq> []"
proof -
  from assms have el: "isImage (path_parse p) \<or> isVideo (path_parse p)"
    by (simp add: renames_def Let_def)
  from assms obtain dt where g: "getDate h p = Inr (Some dt)"
    by (cases "getDate h p") (auto simp: renames_def Let_def split: option.splits)
  from assms g obtain fd where f: "format h dt = Inr fd"
    by (cases "format h dt") (auto simp: renames_def Let_def)
  have fm: "formatted h p = fd" by (simp add: formatted_def g f)
  from format_plain [OF f] show pl: "plainChars (formatted h p)" and ne: "formatted h p \<noteq> []"
    by (simp_all add: fm)
  from eligible_ext [OF el] obtain post where e: "ext (path_parse p) = CHR ''.'' # post"
    "CHR ''/'' \<notin> set post" by blast
  obtain c cs where fc: "formatted h p = c # cs" using ne by (cases "formatted h p") auto
  with pl have c: "c \<noteq> CHR ''.''" "c \<noteq> CHR ''/''"
    using isDigit_not_special [of c] by auto
  have "CHR ''/'' \<notin> set (formatted h p)" "CHR ''/'' \<notin> set (indexStr idx)"
    using plain_no_special [OF pl] indexStr_no_slash by simp_all
  then show "proper (formatted h p @ indexStr idx @ ext (path_parse p))"
    using e c by (auto simp: proper_def fc)
qed

lemma replace_renames_out:
  assumes "renames h p"
  shows "fst (replace h s p) = None \<or>
         (\<exists>idx. fst (replace h s p) =
            Some (Inr (path_join (dir (path_parse p))
                         (formatted h p @ indexStr idx @ ext (path_parse p)))))"
proof -
  obtain known sA where gd: "getDirCache h s (dir (path_parse p)) = (known, sA)"
    by (cases "getDirCache h s (dir (path_parse p))")
  from replace_renames [OF assms gd] show ?thesis by auto
qed

text \<open>
  C10, as the code has it. A call of \<^verbatim>\<open>replace\<close> that returns, returns the input
  path itself, or a path whose directory component is the normalised directory component
  of the input (\<^verbatim>\<open>path.join\<close> collapses repeated separators and resolves \<^verbatim>\<open>.\<close>
  and \<^verbatim>\<open>..\<close> segments). When the directory component of the input is already
  normalised, the returned path has the same directory component.
\<close>

theorem replace_directory_normalized:
  "fst (replace h s p) = None \<or>
   (\<exists>out. fst (replace h s p) = Some (Inr out) \<and>
      (out = p \<or> dir (path_parse out) = normalizedDir (dir (path_parse p))) \<and>
      (normalizedDir (dir (path_parse p)) = dir (path_parse p)
         \<longrightarrow> dir (path_parse out) = dir (path_parse p)))"
proof (cases "renames h p")
  case False
  then show ?thesis by (simp add: replace_not_renames)
next
  case True
  show ?thesis
  proof (cases "fst (replace h s p) = None")
    case True
    then show ?thesis by simp
  next
    case False
    with replace_renames_out [OF \<open>renames h p\<close>, of s] obtain idx where
      out: "fst (replace h s p) =
             Some (Inr (path_join (dir (path_parse p))
                          (formatted h p @ indexStr idx @ ext (path_parse p))))"
      by blast
    from dir_parse_join(1) [OF renames_name_proper(1) [OF \<open>renames h p\<close>, of idx],
        of "dir (path_parse p)"] out
    show ?thesis by simp
  qed
qed

theorem replace_directory_normalized_witness:
  "fst (replace (mediaHost ''2020:01:01 01:02:03'' []) newEngine ''/photos/a.jpg'')
     = Some (Inr ''/photos/20200101_010203.jpg'') \<and>
   normalizedDir ''/photos'' = ''/photos'' \<and>
   dir (path_parse ''/photos/a.jpg'') = ''/photos'' \<and>
   dir (path_parse ''/photos/20200101_010203.jpg'') = ''/photos''"
proof -
  have e: "fst (replace (mediaHost ''2020:01:01 01:02:03'' []) newEngine ''/photos/a.jpg'')
     = Some (Inr ''/photos/20200101_010203.jpg'') \<and>
   normalizedDir ''/photos'' = ''/photos'' \<and>
   dir (path_parse ''/photos/a.jpg'') = ''/photos'' \<and>
   dir (path_parse ''/photos/20200101_010203.jpg'') = ''/photos''"
    by code_simp
  from replace_directory_normalized [of "mediaHost ''2020:01:01 01:02:03'' []" newEngine "''/photos/a.jpg''"] e
  show ?thesis by simp
qed

text \<open>
  C10, as the claim states it, fails for a directory component that is not normalised:
  \<^verbatim>\<open>pics/../a.jpg\<close> comes back without a directory component (another directory
  than \<^verbatim>\<open>pics/..\<close> when \<^verbatim>\<open>pics\<close> is a symbolic link), and the doubled separator
  of \<^verbatim>\<open>/photos//a.jpg\<close> is collapsed.
\<close>

theorem replace_directory_counterexample:
  "fst (replace (mediaHost ''2020:01:01 01:02:03'' []) newEngine ''pics/../a.jpg'')
     = Some (Inr ''20200101_010203.jpg'') \<and>
   dir (path_parse ''pics/../a.jpg'') = ''pics/..'' \<and>
   dir (path_parse ''20200101_010203.jpg'') = [] \<and>
   fst (replace (mediaHost ''2020:01:01 01:02:03'' []) newEngine ''/photos//a.jpg'')
     = Some (Inr ''/photos/20200101_010203.jpg'') \<and>
   dir (path_parse ''/photos//a.jpg'') = ''/photos/'' \<and>
   dir (path_parse ''/photos/20200101_010203.jpg'') = ''/photos''"
  by code_simp

section \<open>A second pass\<close>

text \<open>
  Calendar fields as a host reports them for dates with a year of at most four digits,
  and the text \<^verbatim>\<open>format\<close> makes of them: eight digits, an underscore, six digits.
\<close>

definition calendarFields :: "dateFields \<Rightarrow> bool" where
  "calendarFields f \<longleftrightarrow>
     - 9998 \<le> fullYear f \<and> fullYear f \<le> 9999 \<and> month f < 12 \<and> dayOfMonth f \<le> 31 \<and>
     hours f < 24 \<and> minutes f < 60 \<and> seconds f < 60"

definition canonicalText :: "string \<Rightarrow> bool" where
  "canonicalText fd \<longleftrightarrow>
     (\<exists>a b. fd = a @ CHR ''_'' # b \<and> length a = 8 \<and> length b = 6 \<and>
            list_all isDigit a \<and> list_all isDigit b)"

lemma length_decimal: "n < 10 ^ k \<Longrightarrow> 0 < k \<Longrightarrow> length (decimal n) \<le> k"
proof (induction n arbitrary: k rule: decimal.induct)
  case (1 n)
  show ?case
  proof (cases "n < 10")
    case True
    then show ?thesis using 1(3) by (subst decimal.simps) simp
  next
    case False
    then obtain k' where k: "k = Suc k'" using 1(3) by (cases k) auto
    from False 1(2) have "k' > 0" unfolding k by (cases k') auto
    moreover have "n div 10 < 10 ^ k'"
    proof -
      from 1(2) have "n < 10 * 10 ^ k'" unfolding k by simp
      then show ?thesis by linarith
    qed
    ultimately have "length (decimal (n div 10)) \<le> k'" using 1(1) [OF False] by simp
    then show ?thesis using False unfolding k by (subst decimal.simps) simp
  qed
qed

lemma length_addLeadingZeros:
  assumes "n < 10 ^ k" "0 < k"
  shows "length (addLeadingZeros n k) = k"
proof -
  from assms(1) have "int n < 10 ^ k" by simp
  from length_decimal [OF this assms(2)] show ?thesis by (simp add: addLeadingZeros_def)
qed

lemma format_canonical:
  assumes "format h (Date t) = Inr fd" and "calendarFields (localFields h t)"
  shows "canonicalText fd"
proof -
  define f where "f = localFields h t"
  define y where "y = nat (if fullYear f > 0 then fullYear f else 1 - fullYear f)"
  define A where "A = addLeadingZeros y 4"
  define B where "B = addLeadingZeros (month f + 1) 2"
  define C where "C = addLeadingZeros (dayOfMonth f) 2"
  define E where "E = addLeadingZeros (hours f) 2"
  define F where "F = addLeadingZeros (minutes f) 2"
  define G where "G = addLeadingZeros (seconds f) 2"
  from assms(2) have r: "y < 10 ^ 4" "month f + 1 < 10 ^ 2" "dayOfMonth f < 10 ^ 2"
    "hours f < 10 ^ 2" "minutes f < 10 ^ 2" "seconds f < 10 ^ 2"
    by (auto simp: calendarFields_def f_def y_def)
  have len: "length A = 4" "length B = 2" "length C = 2" "length E = 2" "length F = 2"
    "length G = 2"
    using r by (simp_all add: A_def B_def C_def E_def F_def G_def length_addLeadingZeros)
  have dig: "list_all isDigit A" "list_all isDigit B" "list_all isDigit C"
    "list_all isDigit E" "list_all isDigit F" "list_all isDigit G"
    by (simp_all add: A_def B_def C_def E_def F_def G_def addLeadingZeros_digits)
  have fd: "fd = (A @ B @ C) @ CHR ''_'' # (E @ F @ G)"
    using assms(1)
    by (auto simp: format_def Let_def f_def y_def A_def B_def C_def E_def F_def G_def)
  show ?thesis
    unfolding canonicalText_def
    by (rule exI [of _ "A @ B @ C"], rule exI [of _ "E @ F @ G"]) (simp add: fd len dig)
qed

lemma date_pattern_canonical:
  assumes "canonicalText fd"
  shows "date_pattern (fd @ rest) \<noteq> None"
proof -
  from assms obtain a b where fd: "fd = a @ CHR ''_'' # b" and la: "length a = 8"
    and lb: "length b = 6" and da: "list_all isDigit a" and db: "list_all isDigit b"
    by (auto simp: canonicalText_def)
  have "takeWhile isDigit (b @ rest) = b @ takeWhile isDigit rest"
    using db by (simp add: list_all_iff)
  then have "6 \<le> length (takeWhile isDigit (b @ rest))" using lb by simp
  then show ?thesis using la da
    by (simp add: date_pattern_def Let_def fd)
qed


lemma splitExt_append:
  assumes "X \<noteq> []" "hd X \<noteq> CHR ''.''" "CHR ''.'' \<notin> set post"
  shows "splitExt b (X @ CHR ''.'' # post) = (X, CHR ''.'' # post)"
proof -
  have "takeWhile (\<lambda>c. c \<noteq> CHR ''.'') (rev post @ CHR ''.'' # rev X) = rev post"
    using assms(3) by (auto simp: takeWhile_tail takeWhile_eq_all_conv)
  then have p: "rev (takeWhile (\<lambda>c. c \<noteq> CHR ''.'') (rev (X @ CHR ''.'' # post))) = post"
    by simp
  have "X \<noteq> ''.''" using assms(2) by auto
  then show ?thesis using assms(1)
    unfolding splitExt_def p Let_def by simp
qed

lemma before_first_skip:
  "CHR ''.'' \<notin> set A \<Longrightarrow>
   before_first (CHR ''.'' # post) (A @ Y) = A @ before_first (CHR ''.'' # post) Y"
  by (induction A) auto

lemma isCorrectFileName_emitted:
  assumes c: "canonicalText fd" and pl: "plainChars fd"
    and ix: "CHR ''/'' \<notin> set ix"
    and post: "CHR ''.'' \<notin> set post" "CHR ''/'' \<notin> set post"
    and D: "D = [] \<or> last D = CHR ''/''"
  shows "isCorrectFileName (path_parse (D @ fd @ ix @ CHR ''.'' # post)) = Inr True"
proof -
  define X where "X = fd @ ix"
  from c have "fd \<noteq> []" by (auto simp: canonicalText_def)
  then obtain x xs where fd: "fd = x # xs" by (cases fd) auto
  from pl fd have hx: "hd X \<noteq> CHR ''.''"
    using isDigit_not_special [of x] by (auto simp: X_def)
  have nf: "CHR ''/'' \<notin> set fd" "CHR ''.'' \<notin> set fd" using plain_no_special [OF pl] by simp_all
  define nm where "nm = X @ CHR ''.'' # post"
  have nm: "nm \<noteq> []" "CHR ''/'' \<notin> set nm" using nf ix post by (simp_all add: nm_def X_def)
  have b: "base (path_parse (D @ nm)) = nm" using path_parse_prefixed(1) [OF nm D] .
  have Xne: "X \<noteq> []" by (simp add: X_def fd)
  have "ext (path_parse (D @ nm)) = snd (splitExt (D \<noteq> ''/'') nm)"
    using nm D by (rule path_parse_prefixed(3))
  also have "\<dots> = CHR ''.'' # post"
    unfolding nm_def by (simp only: splitExt_append [OF Xne hx post(1)] snd_conv)
  finally have e: "ext (path_parse (D @ nm)) = CHR ''.'' # post" .
  define rest where "rest = before_first (CHR ''.'' # post) (ix @ CHR ''.'' # post)"
  have "before_first (CHR ''.'' # post) (fd @ ix @ CHR ''.'' # post) = fd @ rest"
    unfolding rest_def using nf(2) by (rule before_first_skip)
  then have sf: "split_first nm (CHR ''.'' # post) = Some (fd @ rest)"
    by (simp add: split_first_def nm_def X_def)
  from date_pattern_canonical [OF c, of rest] obtain m where m: "date_pattern (fd @ rest) = Some m"
    by auto
  have "regex_search date_pattern (fd @ rest) 0 = Some (0, m)" using m by (simp add: fd)
  then have "js_match date_pattern (fd @ rest) = Some \<lparr>index = 0, groups = [m]\<rparr>"
    by (simp add: js_match_def)
  then have "isCorrectFileName (path_parse (D @ nm)) = Inr True"
    by (simp add: isCorrectFileName_def b e sf)
  then show ?thesis by (simp add: nm_def X_def)
qed

lemma canonical_not_renamed:
  assumes "isCorrectFileName (path_parse q) = Inr True"
  shows "replace h s q = (Some (Inr q), s)"
proof -
  have "getDate h q = Inr None" using assms by (simp add: getDate_def Let_def)
  then have "\<not> renames h q" by (simp add: renames_def Let_def)
  then show ?thesis by (rule replace_not_renames)
qed

text \<open>
  C6. \<^verbatim>\<open>replace\<close> is idempotent: applied to the path a call has returned, on the
  engine as any run has left it, it returns that path again. A renamed file has a name
  that starts with the formatted date, so \<^verbatim>\<open>#isCorrectFileName\<close> holds of it and
  the resolver yields no date; a path returned unchanged is returned unchanged again.
  (A call that stays in the retry loop returns no path to apply \<^verbatim>\<open>replace\<close> to.)
  The hypothesis is on the host's calendar: the date resolved for the path has a year of
  at most four digits and fields in their ranges, as every date does that date-fns
  parses from the patterns of the engine.
\<close>

theorem replace_idempotent:
  assumes "\<forall>t. getDate h p = Inr (Some (Date t)) \<longrightarrow> calendarFields (localFields h t)"
  shows "fst (replace h s p) = None \<or>
         (\<exists>out. fst (replace h s p) = Some (Inr out) \<and>
                fst (replace h s' out) = Some (Inr out))"
proof (cases "renames h p")
  case False
  then show ?thesis by (simp add: replace_not_renames)
next
  case True
  from True obtain dt where el: "isImage (path_parse p) \<or> isVideo (path_parse p)"
    and g: "getDate h p = Inr (Some dt)" and f: "format h dt = Inr (formatted h p)"
    by (rule renames_cases)
  define fd where "fd = formatted h p"
  from f obtain t where dt: "dt = Date t" by (cases dt) (auto simp: format_def)
  from assms g dt have "calendarFields (localFields h t)" by simp
  with f dt have c: "canonicalText fd" using format_canonical by (simp add: fd_def)
  have pl: "plainChars fd" using format_plain(1) [OF f] by (simp add: fd_def)
  from eligible_ext [OF el] obtain post where e: "ext (path_parse p) = CHR ''.'' # post"
    and post: "CHR ''.'' \<notin> set post" "CHR ''/'' \<notin> set post" by blast
  show ?thesis
  proof (cases "fst (replace h s p) = None")
    case True
    then show ?thesis by simp
  next
    case False
    with replace_renames_out [OF \<open>renames h p\<close>, of s] obtain idx where
      out: "fst (replace h s p) =
             Some (Inr (path_join (dir (path_parse p)) (fd @ indexStr idx @ ext (path_parse p))))"
      unfolding fd_def by blast
    have pj: "path_join (dir (path_parse p)) (fd @ indexStr idx @ ext (path_parse p))
                = joinPrefix (dir (path_parse p)) @ fd @ indexStr idx @ CHR ''.'' # post"
      using path_join_proper [OF renames_name_proper(1) [OF \<open>renames h p\<close>, of idx]]
      by (simp add: fd_def e)
    have "isCorrectFileName (path_parse (joinPrefix (dir (path_parse p)) @ fd @ indexStr idx
            @ CHR ''.'' # post)) = Inr True"
      using c pl indexStr_no_slash post joinPrefix_shape
      by (rule isCorrectFileName_emitted)
    then have "replace h s' (path_join (dir (path_parse p)) (fd @ indexStr idx @ ext (path_parse p)))
        = (Some (Inr (path_join (dir (path_parse p)) (fd @ indexStr idx @ ext (path_parse p)))), s')"
      unfolding pj by (rule canonical_not_renamed)
    with out show ?thesis by simp
  qed
qed

theorem replace_idempotent_witness:
  "fst (replace (mediaHost ''2020:01:01 01:02:03'' []) newEngine ''/photos/a.jpg'')
     = Some (Inr ''/photos/20200101_010203.jpg'') \<and>
   fst (replace (mediaHost ''2020:01:01 01:02:03'' [])
         (snd (replace (mediaHost ''2020:01:01 01:02:03'' []) newEngine ''/photos/a.jpg''))
         ''/photos/20200101_010203.jpg'')
     = Some (Inr ''/photos/20200101_010203.jpg'')"
proof -
  let ?h = "mediaHost ''2020:01:01 01:02:03'' []"
  have g: "getDate ?h ''/photos/a.jpg'' = Inr (Some (Date 1577840523000))" by code_simp
  have c: "calendarFields (localFields ?h 1577840523000)" by code_simp
  have hyp: "\<forall>t. getDate ?h ''/photos/a.jpg'' = Inr (Some (Date t))
               \<longrightarrow> calendarFields (localFields ?h t)"
    using g c by simp
  have e: "fst (replace ?h newEngine ''/photos/a.jpg'')
             = Some (Inr ''/photos/20200101_010203.jpg'')"
    by code_simp
  from replace_idempotent [OF hyp, of newEngine "snd (replace ?h newEngine ''/photos/a.jpg'')"] e
  show ?thesis by simp
qed

section \<open>Two spellings of a directory\<close>

text \<open>
  C1. Two files of one directory, named in one run by two spellings of the directory,
  with the same creation date: both calls return the same path, so the same file name
  is emitted twice for one directory, date and extension. The key of \<^verbatim>\<open>#indexMap\<close>
  is built by \<^verbatim>\<open>path.join\<close> and is the same for both spellings, so the second call
  starts from the index the first call stored, which is the index the first call used;
  the set of taken names is looked up in \<^verbatim>\<open>#dirCache\<close> under the directory as it is
  spelled, so the second call lists the directory again and finds the name free.
\<close>

theorem same_name_emitted_twice:
  "fst (run (mediaHost ''2020:01:01 01:02:03'' []) newEngine
         [''/photos/a.jpg'', ''/photos//b.jpg''])
     = Some (Inr [''/photos/20200101_010203.jpg'', ''/photos/20200101_010203.jpg'']) \<and>
   dir (path_parse ''/photos/a.jpg'') = ''/photos'' \<and>
   dir (path_parse ''/photos//b.jpg'') = ''/photos/'' \<and>
   path_join ''/photos'' ''20200101_010203.jpg'' = ''/photos/20200101_010203.jpg'' \<and>
   path_join ''/photos/'' ''20200101_010203.jpg'' = ''/photos/20200101_010203.jpg'' \<and>
   readdirCalls (snd (run (mediaHost ''2020:01:01 01:02:03'' []) newEngine
                       [''/photos/a.jpg'', ''/photos//b.jpg''])) = [''/photos'', ''/photos/''] \<and>
   dirCache (snd (run (mediaHost ''2020:01:01 01:02:03'' []) newEngine
                   [''/photos/a.jpg'', ''/photos//b.jpg''])) ''/photos''
     = Some [''20200101_010203.jpg''] \<and>
   dirCache (snd (run (mediaHost ''2020:01:01 01:02:03'' []) newEngine
                   [''/photos/a.jpg'', ''/photos//b.jpg''])) ''/photos/''
     = Some [''20200101_010203.jpg'']"
  by code_simp

text \<open>
  The same with relative paths, and, for comparison, with one spelling: there the second
  file gets the suffix \<^verbatim>\<open>_1\<close>.
\<close>

lemma two_spellings_of_a_directory:
  "fst (run (mediaHost ''2020:01:01 01:02:03'' []) newEngine [''a/x.jpg'', ''./a/y.jpg''])
     = Some (Inr [''a/20200101_010203.jpg'', ''a/20200101_010203.jpg'']) \<and>
   fst (run (mediaHost ''2020:01:01 01:02:03'' []) newEngine [''a/x.jpg'', ''a/y.jpg''])
     = Some (Inr [''a/20200101_010203.jpg'', ''a/20200101_010203_1.jpg''])"
  by code_simp

section \<open>A name that is taken on disk\<close>






end
